theory Spec2Isabelle
  imports Complex_Main "HOL-Library.Multiset"
begin

section \<open>The dengue and rainfall pipeline of \<^verbatim>\<open>src/pipeline.py\<close>\<close>

text \<open>
  The pipeline reads two text files, turns every line into a keyed measure, sums the
  measures per key and per source, joins the two sums by key and writes one row per key
  that both sources know. The functions below follow \<^verbatim>\<open>pipeline.py\<close> one by one and
  keep its names. Everything that raises in Python returns \<open>Inl\<close> of a \<open>py_error\<close>
  here; a run of the pipeline stops at the first error, since Beam aborts the run.

  Strings are lists of 8-bit characters, read as the code points 0 to 255.
\<close>

subsection \<open>Python values and errors\<close>

datatype py_error =
    KeyError string          \<comment> \<open>\<^verbatim>\<open>d[k]\<close> on a missing key\<close>
  | TypeError                \<comment> \<open>\<^verbatim>\<open>re.search\<close> on \<^verbatim>\<open>None\<close>\<close>
  | FloatValueError string   \<comment> \<open>\<^verbatim>\<open>float(s)\<close>: could not convert string to float\<close>
  | UnpackValueError nat     \<comment> \<open>tuple unpacking of a sequence of the wrong length\<close>
  | IndexError               \<comment> \<open>\<^verbatim>\<open>xs[0]\<close> on an empty list\<close>

text \<open>
  A Python float is an IEEE binary64 number. The model keeps the two infinities and NaN
  and represents a finite float by the exact real it was read or summed from: the
  rounding to 53 bits is not modelled, and a literal beyond the range of binary64, which
  Python reads as an infinity or as a zero, keeps its exact value. The functions of the
  pipeline only test the sign of a float and add floats up, and the properties below
  rest on the sign of a value and on \<open>0.0\<close> leaving a sum as it is, which binary64 has
  as well.
\<close>

datatype pyfloat = Fin real | PosInf | NegInf | NaN

fun py_ge_zero :: "pyfloat \<Rightarrow> bool" where
  "py_ge_zero (Fin r) = (0 \<le> r)"
| "py_ge_zero PosInf = True"
| "py_ge_zero NegInf = False"
| "py_ge_zero NaN = False"

fun py_lt_zero :: "pyfloat \<Rightarrow> bool" where
  "py_lt_zero (Fin r) = (r < 0)"
| "py_lt_zero PosInf = False"
| "py_lt_zero NegInf = True"
| "py_lt_zero NaN = False"

fun py_add :: "pyfloat \<Rightarrow> pyfloat \<Rightarrow> pyfloat" where
  "py_add NaN y = NaN"
| "py_add x NaN = NaN"
| "py_add PosInf NegInf = NaN"
| "py_add NegInf PosInf = NaN"
| "py_add PosInf y = PosInf"
| "py_add x PosInf = PosInf"
| "py_add NegInf y = NegInf"
| "py_add x NegInf = NegInf"
| "py_add (Fin a) (Fin b) = Fin (a + b)"

text \<open>The builtin \<^verbatim>\<open>sum\<close>: it starts from 0 and adds from the left.\<close>

definition py_sum :: "pyfloat list \<Rightarrow> pyfloat" where
  "py_sum vs = foldl py_add (Fin 0) vs"

subsection \<open>Characters and the regular expression \<^verbatim>\<open>\d\<close>\<close>

definition is_digit :: "char \<Rightarrow> bool" where
  "is_digit c = (48 \<le> (of_char c :: nat) \<and> (of_char c :: nat) \<le> 57)"

definition digit_val :: "char \<Rightarrow> nat" where
  "digit_val c = of_char c - 48"

text \<open>\<^verbatim>\<open>bool(re.search(r'\d', s))\<close>: some character of \<open>s\<close> is a decimal digit.\<close>

definition re_search_digit :: "string \<Rightarrow> bool" where
  "re_search_digit s = list_ex is_digit s"

subsection \<open>The builtin \<^verbatim>\<open>float\<close> on a string\<close>

text \<open>
  CPython's \<^verbatim>\<open>float(s)\<close> turns every Unicode space into a blank, checks and removes
  the underscores (each must stand between two digits), strips the white space at both
  ends and then wants the whole rest to be
  \<^verbatim>\<open>[sign] (digits [. [digits]] | . digits) [(e|E) [sign] digits]\<close> or
  \<^verbatim>\<open>[sign] (inf | infinity | nan)\<close> in any letter case. Anything else raises
  \<^verbatim>\<open>ValueError\<close>, which is \<open>None\<close> here.
\<close>

text \<open>
  The white space of \<^verbatim>\<open>float\<close> among the code points below 256: tab to carriage return
  and the blank, and the two Unicode spaces U+0085 and U+00A0.
\<close>

definition is_py_space :: "char \<Rightarrow> bool" where
  "is_py_space c = ((of_char c :: nat) \<in> set [9, 10, 11, 12, 13, 32, 133, 160])"

definition to_lower :: "char \<Rightarrow> char" where
  "to_lower c = (if 65 \<le> (of_char c :: nat) \<and> (of_char c :: nat) \<le> 90
                 then char_of ((of_char c :: nat) + 32) else c)"

fun strip_underscores :: "char \<Rightarrow> string \<Rightarrow> string option" where
  "strip_underscores prev [] = (if prev = CHR ''_'' then None else Some [])"
| "strip_underscores prev (c # cs) =
     (if c = CHR ''_'' then (if is_digit prev then strip_underscores c cs else None)
      else if prev = CHR ''_'' \<and> \<not> is_digit c then None
      else map_option ((#) c) (strip_underscores c cs))"

definition strip_spaces :: "string \<Rightarrow> string" where
  "strip_spaces s = rev (dropWhile is_py_space (rev (dropWhile is_py_space s)))"

definition digits_val :: "string \<Rightarrow> nat" where
  "digits_val ds = foldl (\<lambda>n c. 10 * n + digit_val c) 0 ds"

text \<open>An optional sign: whether it is a minus, and the rest.\<close>

fun split_sign :: "string \<Rightarrow> bool \<times> string" where
  "split_sign [] = (False, [])"
| "split_sign (c # cs) =
     (if c = CHR ''-'' then (True, cs) else if c = CHR ''+'' then (False, cs)
      else (False, c # cs))"

text \<open>The exponent, after the mantissa \<open>m\<close>: nothing, or e, a sign and digits.\<close>

definition parse_exponent :: "real \<Rightarrow> string \<Rightarrow> real option" where
  "parse_exponent m r =
     (case r of
        [] \<Rightarrow> Some m
      | e # r' \<Rightarrow>
          if e = CHR ''e'' \<or> e = CHR ''E'' then
            (case split_sign r' of
               (neg, ds) \<Rightarrow>
                 if ds \<noteq> [] \<and> list_all is_digit ds then
                   Some (if neg then m / 10 ^ digits_val ds else m * 10 ^ digits_val ds)
                 else None)
          else None)"

definition parse_number :: "string \<Rightarrow> real option" where
  "parse_number s =
     (let ip = takeWhile is_digit s; r1 = dropWhile is_digit s in
      case r1 of
        [] \<Rightarrow> if ip = [] then None else Some (real (digits_val ip))
      | c # r2 \<Rightarrow>
          if c = CHR ''.'' then
            (let fp = takeWhile is_digit r2; r3 = dropWhile is_digit r2 in
             if ip = [] \<and> fp = [] then None
             else parse_exponent (real (digits_val (ip @ fp)) / 10 ^ length fp) r3)
          else if ip = [] then None
          else parse_exponent (real (digits_val ip)) r1)"

definition py_float :: "string \<Rightarrow> pyfloat option" where
  "py_float s =
     (case strip_underscores (CHR 0x00)
             (map (\<lambda>c. if is_py_space c then CHR '' '' else c) s) of
        None \<Rightarrow> None
      | Some t \<Rightarrow>
          (case split_sign (strip_spaces t) of
             (neg, body) \<Rightarrow>
               if map to_lower body = ''inf'' \<or> map to_lower body = ''infinity''
               then Some (if neg then NegInf else PosInf)
               else if map to_lower body = ''nan'' then Some NaN
               else map_option (\<lambda>r. Fin (if neg then - r else r)) (parse_number body)))"

subsection \<open>\<^verbatim>\<open>str.split\<close> and \<^verbatim>\<open>str.join\<close>\<close>

text \<open>
  \<^verbatim>\<open>s.split(d)\<close> for a one-character separator: the pieces between the separators,
  empty pieces included, so the result is never empty.
\<close>

fun split_on :: "char \<Rightarrow> string \<Rightarrow> string list" where
  "split_on d [] = [[]]"
| "split_on d (c # cs) =
     (if c = d then [] # split_on d cs
      else (case split_on d cs of
              [] \<Rightarrow> [[c]]
            | w # ws \<Rightarrow> (c # w) # ws))"

fun join :: "string \<Rightarrow> string list \<Rightarrow> string" where
  "join sep [] = []"
| "join sep [x] = x"
| "join sep (x # y # ys) = x @ sep @ join sep (y # ys)"

subsection \<open>The record parser\<close>

type_synonym py_dict = "string \<rightharpoonup> string"

definition dengue_columns :: "string list" where
  "dengue_columns =
     [''id'', ''data_iniSE'', ''casos'', ''ibge_code'', ''cidade'', ''uf'', ''cep'',
      ''latitude'', ''longitude'']"

text \<open>\<^verbatim>\<open>dict(zip(columns, element))\<close>: the pairs are stored from left to right.\<close>

definition list_to_dictionary :: "string list \<Rightarrow> string list \<Rightarrow> py_dict" where
  "list_to_dictionary element columns =
     foldl (\<lambda>m kv. m(fst kv \<mapsto> snd kv)) Map.empty (zip columns element)"

definition text_to_list :: "string \<Rightarrow> char \<Rightarrow> string list" where
  "text_to_list element delimiter = split_on delimiter element"

subsection \<open>The key derivers\<close>

definition transform_dates :: "py_dict \<Rightarrow> py_error + py_dict" where
  "transform_dates element =
     (case element ''data_iniSE'' of
        None \<Rightarrow> Inl (KeyError ''data_iniSE'')
      | Some date \<Rightarrow>
          Inr (element(''ano_mes'' \<mapsto> join ''-'' (take 2 (split_on (CHR ''-'') date)))))"

definition uf_key :: "py_dict \<Rightarrow> py_error + (string \<times> py_dict)" where
  "uf_key element =
     (case element ''uf'' of
        None \<Rightarrow> Inl (KeyError ''uf'')
      | Some key \<Rightarrow> Inr (key, element))"

text \<open>
  What an f-string prints for \<^verbatim>\<open>d.get(k)\<close>: the value, or \<^verbatim>\<open>None\<close> for a missing
  key.
\<close>

definition format_get :: "py_dict \<Rightarrow> string \<Rightarrow> string" where
  "format_get d k = (case d k of None \<Rightarrow> ''None'' | Some v \<Rightarrow> v)"

text \<open>One turn of the loop of \<^verbatim>\<open>dengue_cases\<close>: the pair it yields for \<open>d\<close>.\<close>

definition dengue_case :: "string \<Rightarrow> py_dict \<Rightarrow> py_error + (string \<times> pyfloat)" where
  "dengue_case uf d =
     (case d ''casos'' of
        None \<Rightarrow> Inl TypeError
      | Some casos \<Rightarrow>
          if re_search_digit casos then
            (case py_float casos of
               None \<Rightarrow> Inl (FloatValueError casos)
             | Some v \<Rightarrow> Inr (uf @ ''-'' @ format_get d ''ano_mes'', v))
          else Inr (uf @ ''-'' @ format_get d ''ano_mes'', Fin 0))"

text \<open>
  The generator \<^verbatim>\<open>dengue_cases\<close>, consumed whole by \<^verbatim>\<open>beam.FlatMap\<close>: the pairs
  of all the records of the group, or the first error.
\<close>

fun dengue_cases :: "string \<times> py_dict list \<Rightarrow> py_error + (string \<times> pyfloat) list" where
  "dengue_cases (uf, []) = Inr []"
| "dengue_cases (uf, d # data) =
     (case dengue_case uf d of
        Inl e \<Rightarrow> Inl e
      | Inr p \<Rightarrow>
          (case dengue_cases (uf, data) of
             Inl e \<Rightarrow> Inl e
           | Inr ps \<Rightarrow> Inr (p # ps)))"

definition rain_key_uf_year_month :: "string list \<Rightarrow> py_error + (string \<times> pyfloat)" where
  "rain_key_uf_year_month element =
     (case element of
        [date, rainfall, uf] \<Rightarrow>
          (let key = uf @ ''-'' @ join ''-'' (take 2 (split_on (CHR ''-'') date)) in
           case py_float rainfall of
             None \<Rightarrow> Inl (FloatValueError rainfall)
           | Some v \<Rightarrow> if py_ge_zero v then Inr (key, v) else Inr (key, Fin 0))
      | _ \<Rightarrow> Inl (UnpackValueError (length element)))"

subsection \<open>Rounding, filtering and formatting\<close>

text \<open>
  The builtins \<^verbatim>\<open>round(x, ndigits=6)\<close> and \<^verbatim>\<open>str(x)\<close> on a float depend on the
  binary representation; the functions that call them take them as the parameters
  \<open>round6\<close> and \<open>str_float\<close>.
\<close>

definition round_rainfall ::
  "(pyfloat \<Rightarrow> pyfloat) \<Rightarrow> string \<times> pyfloat \<Rightarrow> string \<times> pyfloat" where
  "round_rainfall round6 element = (case element of (key, rainfall) \<Rightarrow> (key, round6 rainfall))"

type_synonym joined = "string \<rightharpoonup> pyfloat list"


definition unpack_elements ::
  "(pyfloat \<Rightarrow> string) \<Rightarrow> string \<times> joined \<Rightarrow>
     py_error + (string \<times> string \<times> string \<times> string \<times> string)" where
  "unpack_elements str_float element =
     (case element of (key, data) \<Rightarrow>
        (case split_on (CHR ''-'') key of
           [uf, year, month] \<Rightarrow>
             (case data ''rain'' of
                None \<Rightarrow> Inl (KeyError ''rain'')
              | Some [] \<Rightarrow> Inl IndexError
              | Some (r # rs) \<Rightarrow>
                  (case data ''dengue'' of
                     None \<Rightarrow> Inl (KeyError ''dengue'')
                   | Some [] \<Rightarrow> Inl IndexError
                   | Some (c # cs) \<Rightarrow> Inr (uf, year, month, str_float r, str_float c)))
         | parts \<Rightarrow> Inl (UnpackValueError (length parts))))"


subsection \<open>The Beam transforms\<close>

text \<open>
  A collection is a list, in the order the lines were read; Beam itself fixes no order,
  and the properties below do not depend on one. \<^verbatim>\<open>beam.Map\<close>, \<^verbatim>\<open>beam.FlatMap\<close> and
  \<^verbatim>\<open>beam.Filter\<close> apply their function to every element; the first element on which
  it raises fails the run.
\<close>

fun beam_map :: "('a \<Rightarrow> py_error + 'b) \<Rightarrow> 'a list \<Rightarrow> py_error + 'b list" where
  "beam_map f [] = Inr []"
| "beam_map f (x # xs) =
     (case f x of
        Inl e \<Rightarrow> Inl e
      | Inr y \<Rightarrow> (case beam_map f xs of Inl e \<Rightarrow> Inl e | Inr ys \<Rightarrow> Inr (y # ys)))"

fun beam_flat_map :: "('a \<Rightarrow> py_error + 'b list) \<Rightarrow> 'a list \<Rightarrow> py_error + 'b list" where
  "beam_flat_map f [] = Inr []"
| "beam_flat_map f (x # xs) =
     (case f x of
        Inl e \<Rightarrow> Inl e
      | Inr ys \<Rightarrow> (case beam_flat_map f xs of Inl e \<Rightarrow> Inl e | Inr zs \<Rightarrow> Inr (ys @ zs)))"


text \<open>
  \<^verbatim>\<open>beam.GroupByKey\<close>: one pair per distinct key, with all the values of that key.
  \<^verbatim>\<open>beam.CombinePerKey(fn)\<close>: one pair per distinct key, with \<open>fn\<close> of its values.
  \<^verbatim>\<open>beam.CoGroupByKey\<close> on named collections: one pair per key of any of them, with
  a dictionary from every name to the values that collection has for the key, an empty
  list when it has none. Beam may call \<open>fn\<close> on parts of the values and again on the
  partial results; for \<open>py_sum\<close> that gives the same sum (\<open>py_sum_partial\<close> below).
\<close>

definition values_of :: "'k \<Rightarrow> ('k \<times> 'v) list \<Rightarrow> 'v list" where
  "values_of k kvs = map snd (filter (\<lambda>p. fst p = k) kvs)"

definition group_by_key :: "('k \<times> 'v) list \<Rightarrow> ('k \<times> 'v list) list" where
  "group_by_key kvs = map (\<lambda>k. (k, values_of k kvs)) (remdups (map fst kvs))"

definition combine_per_key :: "('v list \<Rightarrow> 'w) \<Rightarrow> ('k \<times> 'v) list \<Rightarrow> ('k \<times> 'w) list" where
  "combine_per_key fn kvs = map (\<lambda>(k, vs). (k, fn vs)) (group_by_key kvs)"


subsection \<open>The three collections of the pipeline\<close>

text \<open>
  \<open>dengue\<close> and \<open>rain\<close> take the lines of their file after the header line, which
  \<^verbatim>\<open>ReadFromText\<close> skips.
\<close>

definition dengue :: "string list \<Rightarrow> py_error + (string \<times> pyfloat) list" where
  "dengue lines =
     (case beam_map transform_dates
             (map (\<lambda>e. list_to_dictionary e dengue_columns)
                (map (\<lambda>l. text_to_list l (CHR ''|'')) lines)) of
        Inl e \<Rightarrow> Inl e
      | Inr dated \<Rightarrow>
          (case beam_map uf_key dated of
             Inl e \<Rightarrow> Inl e
           | Inr keyed \<Rightarrow>
               (case beam_flat_map dengue_cases (group_by_key keyed) of
                  Inl e \<Rightarrow> Inl e
                | Inr cases \<Rightarrow> Inr (combine_per_key py_sum cases))))"

definition rain ::
  "(pyfloat \<Rightarrow> pyfloat) \<Rightarrow> string list \<Rightarrow> py_error + (string \<times> pyfloat) list" where
  "rain round6 lines =
     (case beam_map rain_key_uf_year_month
             (map (\<lambda>l. text_to_list l (CHR '','')) lines) of
        Inl e \<Rightarrow> Inl e
      | Inr keyed \<Rightarrow> Inr (map (round_rainfall round6) (combine_per_key py_sum keyed)))"

text \<open>
  The steps of \<open>dengue\<close> that work on one record at a time, put together for one line:
  what the line adds to the pairs that \<^verbatim>\<open>CombinePerKey\<close> sums. The theorems compare the
  collection with it.
\<close>

definition dengue_record :: "string \<Rightarrow> py_error + (string \<times> pyfloat)" where
  "dengue_record line =
     (case transform_dates (list_to_dictionary (text_to_list line (CHR ''|'')) dengue_columns) of
        Inl e \<Rightarrow> Inl e
      | Inr dated \<Rightarrow>
          (case uf_key dated of
             Inl e \<Rightarrow> Inl e
           | Inr (uf, d) \<Rightarrow> dengue_case uf d))"



section \<open>Properties\<close>

subsection \<open>Dictionaries built by the parser\<close>

lemma foldl_upd_map_of:
  "foldl (\<lambda>m kv. m(fst kv \<mapsto> snd kv)) m0 kvs = m0 ++ map_of (rev kvs)"
proof (induction kvs arbitrary: m0)
  case Nil
  then show ?case by simp
next
  case (Cons p kvs)
  have "foldl (\<lambda>m kv. m(fst kv \<mapsto> snd kv)) m0 (p # kvs) =
          foldl (\<lambda>m kv. m(fst kv \<mapsto> snd kv)) (m0(fst p \<mapsto> snd p)) kvs"
    by (simp only: foldl_Cons)
  also have "\<dots> = m0(fst p \<mapsto> snd p) ++ map_of (rev kvs)"
    by (rule Cons.IH)
  also have "\<dots> = m0 ++ map_of (rev (p # kvs))"
    by (rule ext) (simp add: map_add_def split: option.splits)
  finally show ?case .
qed

lemma list_to_dictionary_map_of:
  "list_to_dictionary element columns = map_of (rev (zip columns element))"
  by (simp add: list_to_dictionary_def foldl_upd_map_of)

lemma dom_list_to_dictionary:
  "dom (list_to_dictionary element columns) = set (take (length element) columns)"
proof -
  have "map fst (zip columns element) = take (length element) columns"
    by (simp add: map_fst_zip_take min_def)
  then have "fst ` set (zip columns element) = set (take (length element) columns)"
    by (metis list.set_map)
  then show ?thesis
    by (simp add: list_to_dictionary_map_of dom_map_of_conv_image_fst)
qed

lemma zip_take_right: "zip xs ys = zip xs (take (length xs) ys)"
proof (induction xs arbitrary: ys)
  case Nil
  then show ?case by simp
next
  case (Cons x xs)
  then show ?case by (cases ys) auto
qed

lemma list_to_dictionary_take:
  "list_to_dictionary element columns = list_to_dictionary (take (length columns) element) columns"
  unfolding list_to_dictionary_def by (rule arg_cong[OF zip_take_right])

lemma list_to_dictionary_nth:
  assumes "distinct columns" "i < length columns"
  shows "list_to_dictionary element columns (columns ! i) =
           (if i < length element then Some (element ! i) else None)"
proof (cases "i < length element")
  case True
  have "map fst (zip columns element) = take (length element) columns"
    by (simp add: map_fst_zip_take min_def)
  then have d: "distinct (map fst (rev (zip columns element)))"
    using assms(1) by (simp add: rev_map[symmetric])
  have "(columns ! i, element ! i) \<in> set (rev (zip columns element))"
    using True assms(2) by (auto simp: set_zip)
  then show ?thesis using True d by (simp add: list_to_dictionary_map_of)
next
  case False
  have "columns ! i \<notin> set (take (length element) columns)"
  proof
    assume "columns ! i \<in> set (take (length element) columns)"
    then obtain j where "j < length element" "j < length columns" "columns ! j = columns ! i"
      by (auto simp: in_set_conv_nth)
    then show False using False assms by (auto simp: nth_eq_iff_index_eq)
  qed
  then show ?thesis using False dom_list_to_dictionary[of element columns] by (auto simp: domIff)
qed


lemma beam_map_append:
  "beam_map f (xs @ ys) =
     (case beam_map f xs of
        Inl e \<Rightarrow> Inl e
      | Inr ps \<Rightarrow> (case beam_map f ys of Inl e \<Rightarrow> Inl e | Inr qs \<Rightarrow> Inr (ps @ qs)))"
  by (induction xs) (auto split: sum.splits)

lemma beam_map_fails:
  "x \<in> set xs \<Longrightarrow> f x = Inl e \<Longrightarrow> \<exists>e'. beam_map f xs = Inl e'"
  by (induction xs) (auto split: sum.splits)

lemma split_on_not_Nil: "split_on d s \<noteq> []"
  by (induction s) (auto split: list.splits)

lemma split_on_no_sep: "d \<notin> set s \<Longrightarrow> split_on d s = [s]"
  by (induction s) auto

lemma split_on_append_sep:
  "d \<notin> set a \<Longrightarrow> split_on d (a @ d # b) = a # split_on d b"
  by (induction a) auto

lemma split_on_pieces: "w \<in> set (split_on d s) \<Longrightarrow> d \<notin> set w"
  by (induction s arbitrary: w) (auto split: if_splits list.splits)

text \<open>
  C8. Zipping a field sequence with a schema of another length raises nothing
  (\<open>list_to_dictionary\<close> has no error result, as \<^verbatim>\<open>dict(zip(...))\<close> has none): the
  names set are those of the first \<open>length element\<close> columns, so a name that only
  stands beyond the field count is unset, and the fields beyond the length of the schema
  are dropped. For a schema without repeated names, the name at position \<open>i\<close> holds
  field \<open>i\<close> when there is one and is unset otherwise.
\<close>

theorem list_to_dictionary_length_mismatch:
  "dom (list_to_dictionary element columns) = set (take (length element) columns) \<and>
   list_to_dictionary element columns =
     list_to_dictionary (take (length columns) element) columns \<and>
   (distinct columns \<longrightarrow>
      (\<forall>i < length columns.
         list_to_dictionary element columns (columns ! i) =
           (if i < length element then Some (element ! i) else None)))"
  using dom_list_to_dictionary[of element columns] list_to_dictionary_take[of element columns]
    list_to_dictionary_nth[of columns _ element]
  by blast

theorem list_to_dictionary_length_mismatch_witness:
  "distinct dengue_columns \<and> 2 < length dengue_columns \<and> dengue_columns ! 2 = ''casos'' \<and>
   list_to_dictionary [''1'', ''2015-03-10''] dengue_columns ''casos'' = None \<and>
   list_to_dictionary [''1'', ''2015-03-10''] dengue_columns ''data_iniSE'' = Some ''2015-03-10'' \<and>
   dom (list_to_dictionary [''1'', ''2015-03-10''] dengue_columns) = {''id'', ''data_iniSE''} \<and>
   list_to_dictionary [''7'', ''8'', ''9''] [''id'', ''casos''] =
     list_to_dictionary [''7'', ''8''] [''id'', ''casos'']"
proof -
  let ?short = "[''1'', ''2015-03-10'']"
  have d: "distinct dengue_columns" and l: "2 < length dengue_columns" "1 < length dengue_columns"
    and n: "dengue_columns ! 2 = ''casos''" "dengue_columns ! 1 = ''data_iniSE''"
    by (simp_all add: dengue_columns_def)
  note short = list_to_dictionary_length_mismatch[of ?short dengue_columns]
  from short d l(1) have "list_to_dictionary ?short dengue_columns (dengue_columns ! 2) =
      (if 2 < length ?short then Some (?short ! 2) else None)"
    by blast
  then have casos: "list_to_dictionary ?short dengue_columns ''casos'' = None"
    by (simp add: n)
  from short d l(2) have "list_to_dictionary ?short dengue_columns (dengue_columns ! 1) =
      (if 1 < length ?short then Some (?short ! 1) else None)"
    by blast
  then have date: "list_to_dictionary ?short dengue_columns ''data_iniSE'' = Some ''2015-03-10''"
    by (simp add: dengue_columns_def)
  from short have "dom (list_to_dictionary ?short dengue_columns) =
      set (take (length ?short) dengue_columns)"
    by blast
  then have dm: "dom (list_to_dictionary ?short dengue_columns) = {''id'', ''data_iniSE''}"
    by (simp add: dengue_columns_def)
  have long: "list_to_dictionary [''7'', ''8'', ''9''] [''id'', ''casos''] =
      list_to_dictionary [''7'', ''8''] [''id'', ''casos'']"
    using list_to_dictionary_length_mismatch[of "[''7'', ''8'', ''9'']" "[''id'', ''casos'']"]
    by simp
  show ?thesis using d l(1) n(1) casos date dm long by blast
qed


subsection \<open>Rain records of the wrong length\<close>

lemma rain_key_unpack_fails:
  "length element \<noteq> 3 \<Longrightarrow>
     rain_key_uf_year_month element = Inl (UnpackValueError (length element))"
  by (auto simp: rain_key_uf_year_month_def split: list.splits)


text \<open>
  C9. A rain line that does not split on the comma into exactly three fields makes
  \<open>rain_key_uf_year_month\<close> raise (the unpacking of the tuple fails), and a run over
  lines that contain it ends in an error: the record is neither skipped nor zero-filled.
\<close>

theorem rain_key_wrong_field_count:
  assumes "length (text_to_list line (CHR '','')) \<noteq> 3"
  shows "rain_key_uf_year_month (text_to_list line (CHR '','')) =
           Inl (UnpackValueError (length (text_to_list line (CHR '','')))) \<and>
         (line \<in> set lines \<longrightarrow> (\<exists>e. rain round6 lines = Inl e))"
proof
  show u: "rain_key_uf_year_month (text_to_list line (CHR '','')) =
           Inl (UnpackValueError (length (text_to_list line (CHR '',''))))"
    using assms by (rule rain_key_unpack_fails)
  show "line \<in> set lines \<longrightarrow> (\<exists>e. rain round6 lines = Inl e)"
  proof
    assume "line \<in> set lines"
    then have "text_to_list line (CHR '','') \<in> set (map (\<lambda>l. text_to_list l (CHR '','')) lines)"
      by simp
    from beam_map_fails[where f = rain_key_uf_year_month, OF this u] obtain e where
      "beam_map rain_key_uf_year_month (map (\<lambda>l. text_to_list l (CHR '','')) lines) = Inl e" ..
    then show "\<exists>e. rain round6 lines = Inl e" by (simp add: rain_def)
  qed
qed

theorem rain_key_wrong_field_count_witness:
  "length (text_to_list ''2015-03-05,5.5'' (CHR '','')) = 2 \<and>
   rain_key_uf_year_month (text_to_list ''2015-03-05,5.5'' (CHR '','')) =
     Inl (UnpackValueError 2) \<and>
   (\<exists>e. rain (\<lambda>x. x) [''2015-03-25,4.5,SP'', ''2015-03-05,5.5''] = Inl e)"
proof -
  have len: "length (text_to_list ''2015-03-05,5.5'' (CHR '','')) = 2"
    by (simp add: text_to_list_def)
  then have ne: "length (text_to_list ''2015-03-05,5.5'' (CHR '','')) \<noteq> 3" by simp
  have mem: "''2015-03-05,5.5'' \<in> set [''2015-03-25,4.5,SP'', ''2015-03-05,5.5'']" by simp
  from rain_key_wrong_field_count[OF ne, of "[''2015-03-25,4.5,SP'', ''2015-03-05,5.5'']" "\<lambda>x. x"]
    mem len show ?thesis by simp
qed

subsection \<open>Sums and grouping\<close>

lemma py_add_zero_right: "py_add x (Fin 0) = x"
  by (cases x) simp_all

lemma py_add_right_commute: "py_add (py_add s x) y = py_add (py_add s y) x"
  by (cases s; cases x; cases y) simp_all

lemma py_sum_Nil: "py_sum [] = Fin 0"
  by (simp add: py_sum_def)

lemma py_add_assoc: "py_add (py_add x y) z = py_add x (py_add y z)"
  by (cases x; cases y; cases z) simp_all

lemma py_add_zero_left: "py_add (Fin 0) x = x"
  by (cases x) simp_all

lemma foldl_py_add: "foldl py_add s xs = py_add s (foldl py_add (Fin 0) xs)"
proof (induction xs arbitrary: s)
  case Nil
  then show ?case by (simp add: py_add_zero_right)
next
  case (Cons x xs)
  have "foldl py_add s (x # xs) = py_add (py_add s x) (foldl py_add (Fin 0) xs)"
    using Cons.IH[of "py_add s x"] by simp
  also have "\<dots> = py_add s (py_add x (foldl py_add (Fin 0) xs))"
    by (rule py_add_assoc)
  also have "\<dots> = py_add s (foldl py_add (Fin 0) (x # xs))"
    using Cons.IH[of "py_add (Fin 0) x"] by (simp add: py_add_zero_left)
  finally show ?case .
qed

lemma py_sum_partial: "py_sum [py_sum xs, py_sum ys] = py_sum (xs @ ys)"
  using foldl_py_add[of "foldl py_add (Fin 0) xs" ys]
  by (simp add: py_sum_def py_add_zero_left)

lemma py_sum_drop_zero: "py_sum (xs @ Fin 0 # ys) = py_sum (xs @ ys)"
  by (simp add: py_sum_def py_add_zero_right)

lemma py_sum_mset: "mset xs = mset ys \<Longrightarrow> py_sum xs = py_sum ys"
proof -
  assume eq: "mset xs = mset ys"
  have "fold (\<lambda>x s. py_add s x) xs = fold (\<lambda>x s. py_add s x) ys"
    by (rule fold_multiset_equiv[OF _ eq]) (simp add: fun_eq_iff py_add_right_commute)
  then show ?thesis by (simp add: py_sum_def foldl_conv_fold)
qed

lemma values_of_append: "values_of k (xs @ ys) = values_of k xs @ values_of k ys"
  by (simp add: values_of_def)

lemma values_of_Cons:
  "values_of k (p # xs) = (if fst p = k then snd p # values_of k xs else values_of k xs)"
  by (simp add: values_of_def)

lemma values_of_mset: "mset xs = mset ys \<Longrightarrow> mset (values_of k xs) = mset (values_of k ys)"
  by (simp add: values_of_def)

lemma map_of_group_by_key:
  "map_of (group_by_key kvs) k = (if k \<in> fst ` set kvs then Some (values_of k kvs) else None)"
proof -
  have "map_of (map (\<lambda>k. (k, values_of k kvs)) ks) k =
          (if k \<in> set ks then Some (values_of k kvs) else None)" for ks
    by (induction ks) auto
  then show ?thesis by (simp add: group_by_key_def)
qed

lemma map_of_combine_per_key:
  "map_of (combine_per_key fn kvs) k =
     (if k \<in> fst ` set kvs then Some (fn (values_of k kvs)) else None)"
proof -
  have "map_of (map (\<lambda>k. (k, fn (values_of k kvs))) ks) k =
          (if k \<in> set ks then Some (fn (values_of k kvs)) else None)" for ks
    by (induction ks) auto
  then show ?thesis by (simp add: combine_per_key_def group_by_key_def comp_def)
qed

lemma map_of_round_rainfall:
  "map_of (map (round_rainfall round6) kvs) k = map_option round6 (map_of kvs k)"
  by (induction kvs) (auto simp: round_rainfall_def)

lemma keys_combine_per_key: "map fst (combine_per_key fn kvs) = remdups (map fst kvs)"
  by (simp add: combine_per_key_def group_by_key_def comp_def)


subsection \<open>Runs of the Beam transforms\<close>

lemma beam_map_total:
  "(\<And>x. x \<in> set xs \<Longrightarrow> f x = Inr (h x)) \<Longrightarrow> beam_map f xs = Inr (map h xs)"
  by (induction xs) auto

lemma beam_flat_map_total:
  "(\<And>x. x \<in> set xs \<Longrightarrow> f x = Inr (h x)) \<Longrightarrow> beam_flat_map f xs = Inr (concat (map h xs))"
  by (induction xs) auto

lemma beam_map_Inl:
  "beam_map f xs = Inl e \<Longrightarrow> \<exists>x \<in> set xs. f x = Inl e"
  by (induction xs) (auto split: sum.splits)

lemma beam_flat_map_Inl:
  "beam_flat_map f xs = Inl e \<Longrightarrow> \<exists>x \<in> set xs. f x = Inl e"
  by (induction xs) (auto split: sum.splits)

lemma beam_map_Inr_all:
  "beam_map f xs = Inr ys \<Longrightarrow> x \<in> set xs \<Longrightarrow> \<exists>y. f x = Inr y"
  by (induction xs arbitrary: ys) (auto split: sum.splits)

lemma beam_flat_map_Inr_all:
  "beam_flat_map f xs = Inr ys \<Longrightarrow> x \<in> set xs \<Longrightarrow> \<exists>y. f x = Inr y"
  by (induction xs arbitrary: ys) (auto split: sum.splits)

lemma beam_map_map: "beam_map f (map g xs) = beam_map (\<lambda>x. f (g x)) xs"
  by (induction xs) (auto split: sum.splits)

lemma mset_concat_groups:
  assumes "distinct ks"
  shows "mset (concat (map (\<lambda>k. map h (filter (\<lambda>p. fst p = k) xs)) ks)) =
           image_mset h (filter_mset (\<lambda>p. fst p \<in> set ks) (mset xs))"
  using assms
proof (induction ks)
  case Nil
  then show ?case by simp
next
  case (Cons k ks)
  have "filter_mset (\<lambda>p. fst p = k \<or> fst p \<in> set ks) (mset xs) =
          filter_mset (\<lambda>p. fst p = k) (mset xs) + filter_mset (\<lambda>p. fst p \<in> set ks) (mset xs)"
    using Cons.prems by (induction xs) auto
  then show ?case using Cons by simp
qed

lemma mset_concat_all_groups:
  "mset (concat (map (\<lambda>k. map h (filter (\<lambda>p. fst p = k) xs)) (remdups (map fst xs)))) =
     mset (map h xs)"
proof -
  have "filter_mset (\<lambda>p. fst p \<in> set (remdups (map fst xs))) (mset xs) = mset xs"
    by (simp add: filter_mset_eq_conv)
  then show ?thesis
    using mset_concat_groups[of "remdups (map fst xs)" h xs] by simp
qed

lemma beam_map_bind:
  "(beam_map (\<lambda>x. case f x of Inl e \<Rightarrow> Inl e | Inr y \<Rightarrow> g y) xs = Inr zs) =
     (\<exists>ys. beam_map f xs = Inr ys \<and> beam_map g ys = Inr zs)"
proof (induction xs arbitrary: zs)
  case Nil
  then show ?case by auto
next
  case (Cons x xs)
  show ?case
  proof (cases "f x")
    case (Inl e)
    then show ?thesis by simp
  next
    case fx: (Inr y)
    show ?thesis
    proof (cases "g y")
      case (Inl e)
      then show ?thesis using fx by (auto split: sum.splits)
    next
      case gy: (Inr z)
      show ?thesis
      proof
        assume "beam_map (\<lambda>x. case f x of Inl e \<Rightarrow> Inl e | Inr y \<Rightarrow> g y) (x # xs) = Inr zs"
        then obtain zs' where zs: "zs = z # zs'"
          and "beam_map (\<lambda>x. case f x of Inl e \<Rightarrow> Inl e | Inr y \<Rightarrow> g y) xs = Inr zs'"
          using fx gy by (auto split: sum.splits)
        then obtain ys where "beam_map f xs = Inr ys" "beam_map g ys = Inr zs'"
          using Cons.IH[of zs'] by auto
        then have "beam_map f (x # xs) = Inr (y # ys) \<and> beam_map g (y # ys) = Inr zs"
          using fx gy zs by simp
        then show "\<exists>ys. beam_map f (x # xs) = Inr ys \<and> beam_map g ys = Inr zs" by blast
      next
        assume "\<exists>ys. beam_map f (x # xs) = Inr ys \<and> beam_map g ys = Inr zs"
        then obtain ys where a: "beam_map f (x # xs) = Inr ys" and b: "beam_map g ys = Inr zs"
          by blast
        from a fx obtain ys' where ys: "ys = y # ys'" and a': "beam_map f xs = Inr ys'"
          by (auto split: sum.splits)
        from b ys gy obtain zs' where zs: "zs = z # zs'" and b': "beam_map g ys' = Inr zs'"
          by (auto split: sum.splits)
        from a' b' have "beam_map (\<lambda>x. case f x of Inl e \<Rightarrow> Inl e | Inr y \<Rightarrow> g y) xs = Inr zs'"
          using Cons.IH[of zs'] by blast
        then show "beam_map (\<lambda>x. case f x of Inl e \<Rightarrow> Inl e | Inr y \<Rightarrow> g y) (x # xs) = Inr zs"
          using fx gy zs by simp
      qed
    qed
  qed
qed


subsection \<open>What one record yields\<close>

lemmas py_float_eval_defs = py_float_def is_py_space_def is_digit_def strip_spaces_def
  parse_number_def parse_exponent_def to_lower_def digits_val_def digit_val_def

lemma dengue_cases_beam_map: "dengue_cases (uf, data) = beam_map (dengue_case uf) data"
  by (induction data) (auto split: sum.splits)

lemma rain_negative:
  assumes "py_float rainfall = Some v" and "py_lt_zero v"
  shows "rain_key_uf_year_month [date, rainfall, uf] =
           Inr (uf @ ''-'' @ join ''-'' (take 2 (split_on (CHR ''-'') date)), Fin 0)"
proof -
  have "\<not> py_ge_zero v" using assms(2) by (cases v) auto
  then show ?thesis using assms(1) by (simp add: rain_key_uf_year_month_def)
qed

lemma dengue_no_digit:
  assumes "d ''casos'' = Some casos" and "\<not> re_search_digit casos"
  shows "dengue_case uf d = Inr (uf @ ''-'' @ format_get d ''ano_mes'', Fin 0)"
  using assms by (simp add: dengue_case_def)

lemma dengue_digit_not_float:
  assumes "d ''casos'' = Some casos" and "re_search_digit casos" and "py_float casos = None"
  shows "dengue_case uf d = Inl (FloatValueError casos)"
  using assms by (simp add: dengue_case_def)

subsection \<open>What the two collections hold\<close>

text \<open>
  The dengue collection groups by state before it derives the keys, so its pairs reach
  the sum in another order than the lines; the sums are the same, since \<open>py_add\<close>
  commutes. A run of \<open>dengue\<close> returns exactly when every line yields a pair.
\<close>

lemma dengue_cases_group:
  assumes "\<And>p. p \<in> set keyed \<Longrightarrow> dengue_case (fst p) (snd p) = Inr (h p)"
  shows "dengue_cases (k, values_of k keyed) = Inr (map h (filter (\<lambda>p. fst p = k) keyed))"
proof -
  have "beam_map (\<lambda>p. dengue_case k (snd p)) (filter (\<lambda>p. fst p = k) keyed) =
          Inr (map h (filter (\<lambda>p. fst p = k) keyed))"
    by (rule beam_map_total) (use assms in auto)
  then show ?thesis
    by (simp add: dengue_cases_beam_map values_of_def beam_map_map)
qed

lemma dengue_groups_total:
  assumes "\<And>p. p \<in> set keyed \<Longrightarrow> dengue_case (fst p) (snd p) = Inr (h p)"
  shows "\<exists>cases. beam_flat_map dengue_cases (group_by_key keyed) = Inr cases \<and>
                 mset cases = mset (map h keyed)"
proof -
  let ?H = "\<lambda>g. map h (filter (\<lambda>p. fst p = fst g) keyed)"
  have "beam_flat_map dengue_cases (group_by_key keyed) =
          Inr (concat (map ?H (group_by_key keyed)))"
  proof (rule beam_flat_map_total)
    fix g assume "g \<in> set (group_by_key keyed)"
    then have "g = (fst g, values_of (fst g) keyed)"
      by (auto simp: group_by_key_def)
    then show "dengue_cases g = Inr (?H g)"
      using dengue_cases_group[of keyed h "fst g"] assms by metis
  qed
  moreover have "concat (map ?H (group_by_key keyed)) =
      concat (map (\<lambda>k. map h (filter (\<lambda>p. fst p = k) keyed)) (remdups (map fst keyed)))"
    by (simp add: group_by_key_def comp_def)
  ultimately show ?thesis
    using mset_concat_all_groups[of h keyed] by simp
qed

lemma dengue_groups_Inr:
  assumes "beam_flat_map dengue_cases (group_by_key keyed) = Inr cases" and "p \<in> set keyed"
  shows "\<exists>y. dengue_case (fst p) (snd p) = Inr y"
proof -
  have "(fst p, values_of (fst p) keyed) \<in> set (group_by_key keyed)"
    using assms(2) by (auto simp: group_by_key_def)
  from beam_flat_map_Inr_all[OF assms(1) this] obtain ys where
    "beam_map (dengue_case (fst p)) (values_of (fst p) keyed) = Inr ys"
    by (auto simp: dengue_cases_beam_map)
  moreover have "snd p \<in> set (values_of (fst p) keyed)"
    using assms(2) by (auto simp: values_of_def)
  ultimately show ?thesis by (rule beam_map_Inr_all)
qed

lemma dengue_groups_Inl:
  assumes "beam_flat_map dengue_cases (group_by_key keyed) = Inl e"
  shows "\<exists>p \<in> set keyed. dengue_case (fst p) (snd p) = Inl e"
proof -
  from beam_flat_map_Inl[OF assms] obtain g where
    g: "g \<in> set (group_by_key keyed)" "dengue_cases g = Inl e" by blast
  then have "g = (fst g, values_of (fst g) keyed)"
    by (auto simp: group_by_key_def)
  then have "beam_map (dengue_case (fst g)) (values_of (fst g) keyed) = Inl e"
    using g(2) dengue_cases_beam_map[of "fst g" "values_of (fst g) keyed"] by simp
  from beam_map_Inl[OF this] obtain d where
    "d \<in> set (values_of (fst g) keyed)" "dengue_case (fst g) d = Inl e" by blast
  then have "(fst g, d) \<in> set keyed" "dengue_case (fst (fst g, d)) (snd (fst g, d)) = Inl e"
    by (auto simp: values_of_def)
  then show ?thesis by blast
qed

lemma dengue_record_run:
  "(beam_map dengue_record lines = Inr pairs) =
     (\<exists>dated keyed.
        beam_map transform_dates
          (map (\<lambda>e. list_to_dictionary e dengue_columns)
             (map (\<lambda>l. text_to_list l (CHR ''|'')) lines)) = Inr dated \<and>
        beam_map uf_key dated = Inr keyed \<and>
        beam_map (\<lambda>p. dengue_case (fst p) (snd p)) keyed = Inr pairs)"
proof -
  let ?K = "\<lambda>d. case uf_key d of Inl e \<Rightarrow> Inl e | Inr p \<Rightarrow> dengue_case (fst p) (snd p)"
  have "dengue_record =
      (\<lambda>l. case transform_dates (list_to_dictionary (text_to_list l (CHR ''|'')) dengue_columns) of
              Inl e \<Rightarrow> Inl e | Inr d \<Rightarrow> ?K d)"
    by (auto simp: fun_eq_iff dengue_record_def split: sum.splits)
  then have "beam_map dengue_record lines =
      beam_map (\<lambda>r. case transform_dates r of Inl e \<Rightarrow> Inl e | Inr d \<Rightarrow> ?K d)
        (map (\<lambda>e. list_to_dictionary e dengue_columns)
           (map (\<lambda>l. text_to_list l (CHR ''|'')) lines))"
    by (simp add: beam_map_map)
  then show ?thesis
    by (simp only: beam_map_bind) blast
qed

lemma dengue_of_records:
  assumes "beam_map dengue_record lines = Inr pairs"
  shows "\<exists>cases. dengue lines = Inr (combine_per_key py_sum cases) \<and> mset cases = mset pairs"
proof -
  from assms obtain dated keyed where
    s1: "beam_map transform_dates
          (map (\<lambda>e. list_to_dictionary e dengue_columns)
             (map (\<lambda>l. text_to_list l (CHR ''|'')) lines)) = Inr dated" and
    s2: "beam_map uf_key dated = Inr keyed" and
    s3: "beam_map (\<lambda>p. dengue_case (fst p) (snd p)) keyed = Inr pairs"
    unfolding dengue_record_run by blast
  let ?h = "\<lambda>p. projr (dengue_case (fst p) (snd p))"
  have tot: "dengue_case (fst p) (snd p) = Inr (?h p)" if "p \<in> set keyed" for p
    using beam_map_Inr_all[OF s3 that] by auto
  then have "beam_map (\<lambda>p. dengue_case (fst p) (snd p)) keyed = Inr (map ?h keyed)"
    by (intro beam_map_total) 
  then have pairs: "pairs = map ?h keyed" using s3 by simp
  from dengue_groups_total[of keyed ?h] tot obtain cases where
    "beam_flat_map dengue_cases (group_by_key keyed) = Inr cases" "mset cases = mset (map ?h keyed)"
    by blast
  then show ?thesis using s1 s2 pairs by (auto simp: dengue_def)
qed

lemma dengue_records_of:
  assumes "dengue lines = Inr out"
  shows "\<exists>pairs. beam_map dengue_record lines = Inr pairs"
proof -
  from assms obtain dated keyed cases where
    s1: "beam_map transform_dates
          (map (\<lambda>e. list_to_dictionary e dengue_columns)
             (map (\<lambda>l. text_to_list l (CHR ''|'')) lines)) = Inr dated" and
    s2: "beam_map uf_key dated = Inr keyed" and
    s3: "beam_flat_map dengue_cases (group_by_key keyed) = Inr cases"
    by (auto simp: dengue_def split: sum.splits)
  let ?h = "\<lambda>p. projr (dengue_case (fst p) (snd p))"
  have "dengue_case (fst p) (snd p) = Inr (?h p)" if "p \<in> set keyed" for p
    using dengue_groups_Inr[OF s3 that] by auto
  then have "beam_map (\<lambda>p. dengue_case (fst p) (snd p)) keyed = Inr (map ?h keyed)"
    by (intro beam_map_total)
  then show ?thesis using s1 s2 unfolding dengue_record_run by blast
qed

lemma map_of_dengue:
  assumes "beam_map dengue_record lines = Inr pairs"
  shows "\<exists>out. dengue lines = Inr out \<and>
           (\<forall>k. map_of out k =
                  (if k \<in> fst ` set pairs then Some (py_sum (values_of k pairs)) else None))"
proof -
  from dengue_of_records[OF assms] obtain cases where
    run: "dengue lines = Inr (combine_per_key py_sum cases)" and m: "mset cases = mset pairs"
    by blast
  have "set cases = set pairs" using m by (rule mset_eq_setD)
  moreover have "py_sum (values_of k cases) = py_sum (values_of k pairs)" for k
    by (rule py_sum_mset) (rule values_of_mset[OF m])
  ultimately show ?thesis using run by (simp add: map_of_combine_per_key)
qed

lemma rain_Inr:
  "beam_map rain_key_uf_year_month (map (\<lambda>l. text_to_list l (CHR '','')) lines) = Inr pairs \<Longrightarrow>
     rain round6 lines = Inr (map (round_rainfall round6) (combine_per_key py_sum pairs))"
  by (simp add: rain_def)

lemma map_of_rain:
  "map_of (map (round_rainfall round6) (combine_per_key py_sum pairs)) k =
     (if k \<in> fst ` set pairs then Some (round6 (py_sum (values_of k pairs))) else None)"
  by (simp add: map_of_round_rainfall map_of_combine_per_key)

lemma beam_map_insert:
  assumes "beam_map f (before @ after) = Inr others" and "f x = Inr y"
  shows "\<exists>ps qs. others = ps @ qs \<and> beam_map f (before @ x # after) = Inr (ps @ y # qs)"
proof -
  from assms(1) obtain ps qs where
    "beam_map f before = Inr ps" "beam_map f after = Inr qs" "others = ps @ qs"
    by (auto simp: beam_map_append split: sum.splits)
  then have "beam_map f (before @ x # after) = Inr (ps @ y # qs)"
    using assms(2) by (simp add: beam_map_append)
  then show ?thesis using \<open>others = ps @ qs\<close> by blast
qed


subsection \<open>Negative rainfall\<close>

text \<open>
  C6. A rain record \<^verbatim>\<open>(date, rainfall, uf)\<close> whose rainfall parses as a float below zero
  yields the pair of its key and \<open>0.0\<close>. In a run over lines whose other records all
  yield pairs, the run returns, and the sum of that key is the rounded sum of the other
  records of the key alone: the record adds zero, not its negative value.
\<close>

theorem rain_negative_contributes_zero:
  assumes "text_to_list line (CHR '','') = [date, rainfall, uf]"
    and "py_float rainfall = Some v" and "py_lt_zero v"
    and "key = uf @ ''-'' @ join ''-'' (take 2 (split_on (CHR ''-'') date))"
  shows "rain_key_uf_year_month (text_to_list line (CHR '','')) = Inr (key, Fin 0) \<and>
         (\<forall>others.
            beam_map rain_key_uf_year_month
              (map (\<lambda>l. text_to_list l (CHR '','')) (before @ after)) = Inr others \<longrightarrow>
            (\<exists>out. rain round6 (before @ line # after) = Inr out \<and>
                   map_of out key = Some (round6 (py_sum (values_of key others)))))"
proof (intro conjI allI impI)
  show rec: "rain_key_uf_year_month (text_to_list line (CHR '','')) = Inr (key, Fin 0)"
    using rain_negative[OF assms(2,3)] assms(1,4) by simp
  fix others
  assume "beam_map rain_key_uf_year_month
            (map (\<lambda>l. text_to_list l (CHR '','')) (before @ after)) = Inr others"
  then have "beam_map rain_key_uf_year_month
            (map (\<lambda>l. text_to_list l (CHR '','')) before @
             map (\<lambda>l. text_to_list l (CHR '','')) after) = Inr others"
    by simp
  from beam_map_insert[OF this rec] obtain ps qs where
    split: "others = ps @ qs" and
    run: "beam_map rain_key_uf_year_month
            (map (\<lambda>l. text_to_list l (CHR '','')) (before @ line # after)) =
          Inr (ps @ (key, Fin 0) # qs)"
    by auto
  let ?out = "map (round_rainfall round6) (combine_per_key py_sum (ps @ (key, Fin 0) # qs))"
  have "rain round6 (before @ line # after) = Inr ?out"
    using run by (rule rain_Inr)
  moreover have "map_of ?out key = Some (round6 (py_sum (values_of key others)))"
    by (simp add: map_of_rain split values_of_append values_of_Cons py_sum_drop_zero)
  ultimately show "\<exists>out. rain round6 (before @ line # after) = Inr out \<and>
      map_of out key = Some (round6 (py_sum (values_of key others)))"
    by blast
qed

theorem rain_negative_contributes_zero_witness:
  "rain_key_uf_year_month (text_to_list ''2015-04-01,-3.0,SP'' (CHR '','')) =
     Inr (''SP-2015-04'', Fin 0) \<and>
   (\<exists>out. rain (\<lambda>x. x) [''2015-04-20,2.5,SP'', ''2015-04-01,-3.0,SP''] = Inr out \<and>
          map_of out ''SP-2015-04'' = Some (Fin (5 / 2)))"
proof -
  have f: "text_to_list ''2015-04-01,-3.0,SP'' (CHR '','') = [''2015-04-01'', ''-3.0'', ''SP'']"
    by (simp add: text_to_list_def)
  have p: "py_float ''-3.0'' = Some (Fin (- 3))"
    by (simp add: py_float_eval_defs)
  have n: "py_lt_zero (Fin (- 3))" by simp
  have k: "''SP-2015-04'' = ''SP'' @ ''-'' @ join ''-'' (take 2 (split_on (CHR ''-'') ''2015-04-01''))"
    by simp
  have p2: "py_float ''2.5'' = Some (Fin (5 / 2))"
    by (simp add: py_float_eval_defs)
  have o: "beam_map rain_key_uf_year_month
             (map (\<lambda>l. text_to_list l (CHR '','')) ([''2015-04-20,2.5,SP''] @ [])) =
           Inr [(''SP-2015-04'', Fin (5 / 2))]"
    by (simp add: text_to_list_def rain_key_uf_year_month_def p2)
  have s: "py_sum (values_of ''SP-2015-04'' [(''SP-2015-04'', Fin (5 / 2))]) = Fin (5 / 2)"
    by (simp add: values_of_def py_sum_def)
  from rain_negative_contributes_zero[OF f p n k, of "[''2015-04-20,2.5,SP'']" "[]" "\<lambda>x. x"] o s
  show ?thesis by simp
qed

subsection \<open>Dengue measures without a digit\<close>

text \<open>
  C7. A dengue record whose \<^verbatim>\<open>casos\<close> string holds no digit is not dropped: the loop
  of \<open>dengue_cases\<close> yields the pair of its composite key and \<open>0.0\<close> for it, at its
  place among the pairs of the records before and after it in the group.
\<close>

theorem dengue_no_digit_emits_zero:
  assumes "d ''casos'' = Some casos" and "\<not> re_search_digit casos"
    and "key = uf @ ''-'' @ format_get d ''ano_mes''"
  shows "dengue_case uf d = Inr (key, Fin 0) \<and>
         (\<forall>ps qs. dengue_cases (uf, before) = Inr ps \<longrightarrow> dengue_cases (uf, after) = Inr qs \<longrightarrow>
            dengue_cases (uf, before @ d # after) = Inr (ps @ (key, Fin 0) # qs))"
proof -
  have one: "dengue_case uf d = Inr (key, Fin 0)"
    using dengue_no_digit[where d = d, OF assms(1,2)] assms(3) by simp
  then show ?thesis
    by (simp add: dengue_cases_beam_map beam_map_append)
qed

theorem dengue_no_digit_emits_zero_witness:
  "dengue_case ''SP'' [''casos'' \<mapsto> ''abc'', ''ano_mes'' \<mapsto> ''2015-03''] =
     Inr (''SP-2015-03'', Fin 0) \<and>
   dengue_cases (''SP'', [[''casos'' \<mapsto> ''10'', ''ano_mes'' \<mapsto> ''2015-03''],
                         [''casos'' \<mapsto> ''abc'', ''ano_mes'' \<mapsto> ''2015-03'']]) =
     Inr [(''SP-2015-03'', Fin 10), (''SP-2015-03'', Fin 0)]"
proof -
  let ?d = "[''casos'' \<mapsto> ''abc'', ''ano_mes'' \<mapsto> ''2015-03'']"
  have c: "?d ''casos'' = Some ''abc''" by simp
  have n: "\<not> re_search_digit ''abc''" by (simp add: re_search_digit_def is_digit_def)
  have k: "''SP-2015-03'' = ''SP'' @ ''-'' @ format_get ?d ''ano_mes''"
    by (simp add: format_get_def)
  have p: "py_float ''10'' = Some (Fin 10)" by (simp add: py_float_eval_defs)
  have b: "dengue_cases (''SP'', [[''casos'' \<mapsto> ''10'', ''ano_mes'' \<mapsto> ''2015-03'']]) =
             Inr [(''SP-2015-03'', Fin 10)]"
    by (simp add: dengue_case_def re_search_digit_def is_digit_def p format_get_def)
  have a: "dengue_cases (''SP'', []) = Inr []" by simp
  from dengue_no_digit_emits_zero[where d = ?d and before = "[[''casos'' \<mapsto> ''10'', ''ano_mes'' \<mapsto> ''2015-03'']]"
      and after = "[]", OF c n k] a b
  show ?thesis by simp
qed

subsection \<open>Dengue measures with a digit that are no float\<close>

lemma dengue_record_digit_not_float:
  assumes "list_to_dictionary (text_to_list line (CHR ''|'')) dengue_columns ''casos'' = Some casos"
    and "re_search_digit casos" and "py_float casos = None"
  shows "\<exists>e. dengue_record line = Inl e"
  using assms
  by (auto simp: dengue_record_def transform_dates_def uf_key_def dengue_case_def
      split: option.splits)

lemma dengue_fails_if_record_fails:
  assumes "line \<in> set lines" and "dengue_record line = Inl e"
  shows "\<exists>e'. dengue lines = Inl e'"
proof (cases "dengue lines")
  case (Inl e')
  then show ?thesis by blast
next
  case (Inr out)
  from dengue_records_of[OF this] obtain pairs where "beam_map dengue_record lines = Inr pairs" ..
  from beam_map_Inr_all[OF this assms(1)] assms(2) show ?thesis by simp
qed

text \<open>
  C1, as the code has it. A \<^verbatim>\<open>casos\<close> string that holds a digit goes to \<^verbatim>\<open>float\<close>
  unguarded, so one that is no float literal is not turned into \<open>0.0\<close>: the loop raises
  \<^verbatim>\<open>ValueError\<close> for the record, \<open>dengue_cases\<close> fails on every group that holds it, and
  a run of \<open>dengue\<close> over lines that contain it ends in an error.
\<close>

theorem dengue_digit_not_float_raises:
  assumes "re_search_digit casos" and "py_float casos = None"
  shows "(d ''casos'' = Some casos \<longrightarrow>
            dengue_case uf d = Inl (FloatValueError casos) \<and>
            (d \<in> set data \<longrightarrow> (\<exists>e. dengue_cases (uf, data) = Inl e))) \<and>
         (line \<in> set lines \<longrightarrow>
            list_to_dictionary (text_to_list line (CHR ''|'')) dengue_columns ''casos'' = Some casos \<longrightarrow>
            (\<exists>e. dengue lines = Inl e))"
proof (intro conjI impI)
  assume c: "d ''casos'' = Some casos"
  show one: "dengue_case uf d = Inl (FloatValueError casos)"
    using dengue_digit_not_float[where d = d, OF c assms] .
  assume "d \<in> set data"
  from beam_map_fails[where f = "dengue_case uf", OF this one]
  show "\<exists>e. dengue_cases (uf, data) = Inl e"
    by (simp add: dengue_cases_beam_map)
next
  assume l: "line \<in> set lines"
    and c: "list_to_dictionary (text_to_list line (CHR ''|'')) dengue_columns ''casos'' = Some casos"
  from dengue_record_digit_not_float[OF c assms] obtain e where "dengue_record line = Inl e" ..
  with l show "\<exists>e. dengue lines = Inl e" by (rule dengue_fails_if_record_fails)
qed

theorem dengue_digit_not_float_raises_witness:
  "dengue_case ''RJ'' [''casos'' \<mapsto> ''1.2.3'', ''ano_mes'' \<mapsto> ''2016-01''] =
     Inl (FloatValueError ''1.2.3'') \<and>
   (\<exists>e. dengue_cases (''RJ'', [[''casos'' \<mapsto> ''4'', ''ano_mes'' \<mapsto> ''2016-01''],
                               [''casos'' \<mapsto> ''1.2.3'', ''ano_mes'' \<mapsto> ''2016-01'']]) = Inl e) \<and>
   (\<exists>e. dengue [''7|2016-01-03|4|a|b|RJ|c|d|e'', ''8|2016-01-04|1.2.3|a|b|RJ|c|d|e''] = Inl e)"
proof -
  let ?d = "[''casos'' \<mapsto> ''1.2.3'', ''ano_mes'' \<mapsto> ''2016-01'']"
  let ?l = "''8|2016-01-04|1.2.3|a|b|RJ|c|d|e''"
  have r: "re_search_digit ''1.2.3''" by (simp add: re_search_digit_def is_digit_def)
  have p: "py_float ''1.2.3'' = None" by (simp add: py_float_eval_defs)
  have c: "?d ''casos'' = Some ''1.2.3''" by simp
  have m: "?d \<in> set [[''casos'' \<mapsto> ''4'', ''ano_mes'' \<mapsto> ''2016-01''], ?d]" by simp
  have l: "?l \<in> set [''7|2016-01-03|4|a|b|RJ|c|d|e'', ?l]" by simp
  have q: "list_to_dictionary (text_to_list ?l (CHR ''|'')) dengue_columns ''casos'' = Some ''1.2.3''"
    by (simp add: text_to_list_def list_to_dictionary_def dengue_columns_def)
  from dengue_digit_not_float_raises[OF r p, where d = ?d and uf = "''RJ''"
      and data = "[[''casos'' \<mapsto> ''4'', ''ano_mes'' \<mapsto> ''2016-01''], ?d]" and line = ?l
      and lines = "[''7|2016-01-03|4|a|b|RJ|c|d|e'', ?l]"] c m l q
  show ?thesis by blast
qed

lemma parse_sp_12a:
  "list_to_dictionary (text_to_list ''1|2015-03-10|12a|a|b|SP|c|d|e'' (CHR ''|'')) dengue_columns =
    [''id'' \<mapsto> ''1'', ''data_iniSE'' \<mapsto> ''2015-03-10'', ''casos'' \<mapsto> ''12a'',
     ''ibge_code'' \<mapsto> ''a'', ''cidade'' \<mapsto> ''b'', ''uf'' \<mapsto> ''SP'', ''cep'' \<mapsto> ''c'',
     ''latitude'' \<mapsto> ''d'', ''longitude'' \<mapsto> ''e'']"
  by (simp add: text_to_list_def list_to_dictionary_def dengue_columns_def)

text \<open>
  The record with \<^verbatim>\<open>casos = "12a"\<close>: the string holds a digit and is no float, and
  both the generator and the whole collection raise instead of yielding \<open>0.0\<close>.
\<close>

theorem dengue_12a_counterexample:
  "re_search_digit ''12a'' \<and> py_float ''12a'' = None \<and>
   dengue_cases (''SP'', [[''casos'' \<mapsto> ''12a'', ''ano_mes'' \<mapsto> ''2015-03'']]) =
     Inl (FloatValueError ''12a'') \<and>
   dengue [''1|2015-03-10|12a|a|b|SP|c|d|e''] = Inl (FloatValueError ''12a'')"
proof -
  have r: "re_search_digit ''12a''" by (simp add: re_search_digit_def is_digit_def)
  have p: "py_float ''12a'' = None" by (simp add: py_float_eval_defs)
  have c: "dengue_cases (''SP'', [[''casos'' \<mapsto> ''12a'', ''ano_mes'' \<mapsto> ''2015-03'']]) =
     Inl (FloatValueError ''12a'')"
    by (simp add: dengue_case_def r p)
  have d: "dengue [''1|2015-03-10|12a|a|b|SP|c|d|e''] = Inl (FloatValueError ''12a'')"
    by (simp add: dengue_def parse_sp_12a transform_dates_def uf_key_def group_by_key_def
        values_of_def dengue_case_def r p)
  show ?thesis using r p c d by blast
qed

subsection \<open>Dengue lines that are too short\<close>

lemma beam_map_Inr_image:
  "beam_map f xs = Inr ys \<Longrightarrow> y \<in> set ys \<Longrightarrow> \<exists>x \<in> set xs. f x = Inr y"
  by (induction xs arbitrary: ys) (auto split: sum.splits)

lemma beam_map_Inr_result:
  "beam_map f xs = Inr ys \<Longrightarrow> x \<in> set xs \<Longrightarrow> \<exists>y \<in> set ys. f x = Inr y"
  by (induction xs arbitrary: ys) (auto split: sum.splits)

lemma text_to_list_not_Nil: "text_to_list line delimiter \<noteq> []"
  by (simp add: text_to_list_def split_on_not_Nil)

lemma dengue_columns_take:
  "n < 3 \<Longrightarrow> ''casos'' \<notin> set (take n dengue_columns)"
  "n < 6 \<Longrightarrow> ''uf'' \<notin> set (take n dengue_columns)"
  "3 \<le> n \<Longrightarrow> ''casos'' \<in> set (take n dengue_columns)"
  "n < 2 \<Longrightarrow> ''data_iniSE'' \<notin> set (take n dengue_columns)"
  "2 \<le> n \<Longrightarrow> ''data_iniSE'' \<in> set (take n dengue_columns)"
proof -
  show "n < 3 \<Longrightarrow> ''casos'' \<notin> set (take n dengue_columns)"
    using set_take_subset_set_take[of n 2 dengue_columns] by (auto simp: dengue_columns_def)
  show "n < 6 \<Longrightarrow> ''uf'' \<notin> set (take n dengue_columns)"
    using set_take_subset_set_take[of n 5 dengue_columns] by (auto simp: dengue_columns_def)
  show "3 \<le> n \<Longrightarrow> ''casos'' \<in> set (take n dengue_columns)"
    using set_take_subset_set_take[of 3 n dengue_columns] by (auto simp: dengue_columns_def)
  show "n < 2 \<Longrightarrow> ''data_iniSE'' \<notin> set (take n dengue_columns)"
    using set_take_subset_set_take[of n 1 dengue_columns] by (auto simp: dengue_columns_def)
  show "2 \<le> n \<Longrightarrow> ''data_iniSE'' \<in> set (take n dengue_columns)"
    using set_take_subset_set_take[of 2 n dengue_columns] by (auto simp: dengue_columns_def)
qed

lemma parsed_field_set:
  "(list_to_dictionary element columns k \<noteq> None) = (k \<in> set (take (length element) columns))"
  using dom_list_to_dictionary[of element columns] by (auto simp: dom_def)

lemma casos_set_if_uf_set:
  assumes "list_to_dictionary element dengue_columns ''uf'' \<noteq> None"
  shows "list_to_dictionary element dengue_columns ''casos'' \<noteq> None"
proof -
  have "''uf'' \<in> set (take (length element) dengue_columns)"
    using assms parsed_field_set[of element dengue_columns "''uf''"] by blast
  then have "\<not> length element < 6"
    using dengue_columns_take(2)[of "length element"] by blast
  then have "3 \<le> length element" by simp
  then show ?thesis
    using dengue_columns_take(3)[of "length element"]
      parsed_field_set[of element dengue_columns "''casos''"] by blast
qed

lemma transform_dates_Inl: "transform_dates r = Inl e \<Longrightarrow> e = KeyError ''data_iniSE''"
  by (auto simp: transform_dates_def split: option.splits)

lemma transform_dates_Inr:
  "transform_dates r = Inr d \<Longrightarrow> d ''uf'' = r ''uf'' \<and> d ''casos'' = r ''casos''"
  by (auto simp: transform_dates_def split: option.splits)

lemma uf_key_Inl: "uf_key d = Inl e \<Longrightarrow> e = KeyError ''uf''"
  by (auto simp: uf_key_def split: option.splits)

lemma uf_key_Inr: "uf_key d = Inr p \<Longrightarrow> snd p = d \<and> d ''uf'' = Some (fst p)"
  by (auto simp: uf_key_def split: option.splits)

lemma dengue_case_TypeError: "dengue_case uf d = Inl TypeError \<Longrightarrow> d ''casos'' = None"
  by (auto simp: dengue_case_def split: option.splits if_splits)

lemma dengue_never_TypeError: "dengue lines \<noteq> Inl TypeError"
proof
  let ?recs = "map (\<lambda>e. list_to_dictionary e dengue_columns)
                 (map (\<lambda>l. text_to_list l (CHR ''|'')) lines)"
  assume a: "dengue lines = Inl TypeError"
  show False
  proof (cases "beam_map transform_dates ?recs")
    case (Inl e)
    then have "e = KeyError ''data_iniSE''"
      using beam_map_Inl[OF Inl] transform_dates_Inl by blast
    then show False using a Inl by (simp add: dengue_def)
  next
    case s1: (Inr dated)
    show False
    proof (cases "beam_map uf_key dated")
      case (Inl e)
      then have "e = KeyError ''uf''"
        using beam_map_Inl[OF Inl] uf_key_Inl by blast
      then show False using a s1 Inl by (simp add: dengue_def)
    next
      case s2: (Inr keyed)
      from a s1 s2 have "beam_flat_map dengue_cases (group_by_key keyed) = Inl TypeError"
        by (simp add: dengue_def split: sum.splits)
      from dengue_groups_Inl[OF this] obtain p where
        p: "p \<in> set keyed" "dengue_case (fst p) (snd p) = Inl TypeError" by blast
      from beam_map_Inr_image[OF s2 p(1)] obtain d where
        d: "d \<in> set dated" "uf_key d = Inr p" by blast
      from beam_map_Inr_image[OF s1 d(1)] obtain r where
        r: "r \<in> set ?recs" "transform_dates r = Inr d" by blast
      from r(1) obtain element where e: "r = list_to_dictionary element dengue_columns"
        by auto
      have "d ''uf'' \<noteq> None" using uf_key_Inr[OF d(2)] by simp
      then have "r ''uf'' \<noteq> None" using transform_dates_Inr[OF r(2)] by simp
      then have "r ''casos'' \<noteq> None" unfolding e by (rule casos_set_if_uf_set)
      then have "d ''casos'' \<noteq> None" using transform_dates_Inr[OF r(2)] by simp
      moreover have "d ''casos'' = None"
        using dengue_case_TypeError[OF p(2)] uf_key_Inr[OF d(2)] by simp
      ultimately show False by simp
    qed
  qed
qed

lemma short_record:
  assumes "length (text_to_list line (CHR ''|'')) < 3"
  shows "list_to_dictionary (text_to_list line (CHR ''|'')) dengue_columns ''casos'' = None"
    and "list_to_dictionary (text_to_list line (CHR ''|'')) dengue_columns ''uf'' = None"
    and "dengue_record line =
           Inl (KeyError (if length (text_to_list line (CHR ''|'')) = 1
                          then ''data_iniSE'' else ''uf''))"
proof -
  let ?e = "text_to_list line (CHR ''|'')"
  let ?r = "list_to_dictionary ?e dengue_columns"
  show c: "?r ''casos'' = None"
    using parsed_field_set[of ?e dengue_columns "''casos''"] dengue_columns_take(1) assms by auto
  show u: "?r ''uf'' = None"
    using parsed_field_set[of ?e dengue_columns "''uf''"] dengue_columns_take(2)[of "length ?e"]
      assms by auto
  have len: "length ?e = 1 \<or> length ?e = 2"
  proof -
    have "length ?e \<noteq> 0" using text_to_list_not_Nil[of line "CHR ''|''"] by simp
    then show ?thesis using assms by arith
  qed
  show "dengue_record line = Inl (KeyError (if length ?e = 1 then ''data_iniSE'' else ''uf''))"
  proof (cases "length ?e = 1")
    case True
    then have "?r ''data_iniSE'' = None"
      using parsed_field_set[of ?e dengue_columns "''data_iniSE''"]
        dengue_columns_take(4)[of "length ?e"] by auto
    then show ?thesis using True by (simp add: dengue_record_def transform_dates_def)
  next
    case False
    then have "length ?e = 2" using len by simp
    then have "?r ''data_iniSE'' \<noteq> None"
      using parsed_field_set[of ?e dengue_columns "''data_iniSE''"]
        dengue_columns_take(5)[of "length ?e"] by auto
    then obtain date where "?r ''data_iniSE'' = Some date" by auto
    then show ?thesis using False u
      by (simp add: dengue_record_def transform_dates_def uf_key_def)
  qed
qed

lemma dengue_short_record_run:
  assumes "length (text_to_list line (CHR ''|'')) < 3" and "line \<in> set lines"
  shows "\<exists>k. dengue lines = Inl (KeyError k)"
proof -
  let ?recs = "map (\<lambda>e. list_to_dictionary e dengue_columns)
                 (map (\<lambda>l. text_to_list l (CHR ''|'')) lines)"
  let ?r = "list_to_dictionary (text_to_list line (CHR ''|'')) dengue_columns"
  have mem: "?r \<in> set ?recs" using assms(2) by auto
  show ?thesis
  proof (cases "beam_map transform_dates ?recs")
    case (Inl e)
    then have "e = KeyError ''data_iniSE''"
      using beam_map_Inl[OF Inl] transform_dates_Inl by blast
    then show ?thesis using Inl by (simp add: dengue_def)
  next
    case s1: (Inr dated)
    from beam_map_Inr_result[OF s1 mem] obtain d where
      d: "d \<in> set dated" "transform_dates ?r = Inr d" by blast
    have "d ''uf'' = None"
      using transform_dates_Inr[OF d(2)] short_record(2)[OF assms(1)] by simp
    then have "uf_key d = Inl (KeyError ''uf'')" by (simp add: uf_key_def)
    from beam_map_fails[where f = uf_key, OF d(1) this] obtain e where
      s2: "beam_map uf_key dated = Inl e" ..
    then have "e = KeyError ''uf''"
      using beam_map_Inl[OF s2] uf_key_Inl by blast
    then show ?thesis using s1 s2 by (simp add: dengue_def)
  qed
qed

text \<open>
  C10, as the code has it. A dengue line with fewer than three fields leaves \<^verbatim>\<open>casos\<close>
  unset, and the parser accepts it. What fails afterwards is not the aggregation: the
  record stops with \<^verbatim>\<open>KeyError\<close> in \<open>transform_dates\<close> (one field, no
  \<^verbatim>\<open>data_iniSE\<close>) or in \<open>uf_key\<close> (two fields, no \<^verbatim>\<open>uf\<close>), and a run over lines that
  contain it ends in a \<^verbatim>\<open>KeyError\<close>. No run of \<open>dengue\<close> ever raises the
  \<^verbatim>\<open>TypeError\<close> that the loop of \<open>dengue_cases\<close> raises on a record without
  \<^verbatim>\<open>casos\<close>: every record that reaches the loop has \<^verbatim>\<open>uf\<close>, the sixth column, so it
  has \<^verbatim>\<open>casos\<close>, the third.
\<close>

theorem dengue_short_record_key_error:
  assumes "length (text_to_list line (CHR ''|'')) < 3"
  shows "list_to_dictionary (text_to_list line (CHR ''|'')) dengue_columns ''casos'' = None \<and>
         dengue_record line =
           Inl (KeyError (if length (text_to_list line (CHR ''|'')) = 1
                          then ''data_iniSE'' else ''uf'')) \<and>
         (line \<in> set lines \<longrightarrow> (\<exists>k. dengue lines = Inl (KeyError k))) \<and>
         dengue lines \<noteq> Inl TypeError \<and>
         (d ''casos'' = None \<longrightarrow> dengue_case uf d = Inl TypeError)"
  using short_record(1,3)[OF assms] dengue_short_record_run[OF assms, of lines]
    dengue_never_TypeError[of lines]
  by (simp add: dengue_case_def)

theorem dengue_short_record_key_error_witness:
  "length (text_to_list ''9|2016-02-07'' (CHR ''|'')) = 2 \<and>
   list_to_dictionary (text_to_list ''9|2016-02-07'' (CHR ''|'')) dengue_columns ''casos'' = None \<and>
   dengue_record ''9|2016-02-07'' = Inl (KeyError ''uf'') \<and>
   (\<exists>k. dengue [''7|2016-01-03|4|a|b|RJ|c|d|e'', ''9|2016-02-07''] = Inl (KeyError k)) \<and>
   dengue [''7|2016-01-03|4|a|b|RJ|c|d|e'', ''9|2016-02-07''] \<noteq> Inl TypeError \<and>
   dengue_case ''RJ'' [''ano_mes'' \<mapsto> ''2016-02''] = Inl TypeError"
proof -
  let ?l = "''9|2016-02-07''"
  let ?ls = "[''7|2016-01-03|4|a|b|RJ|c|d|e'', ?l]"
  have len: "length (text_to_list ?l (CHR ''|'')) = 2" by (simp add: text_to_list_def)
  then have short: "length (text_to_list ?l (CHR ''|'')) < 3" by simp
  have mem: "?l \<in> set ?ls" by simp
  have none: "[''ano_mes'' \<mapsto> ''2016-02''] ''casos'' = None" by simp
  from dengue_short_record_key_error[OF short, where lines = ?ls
      and d = "[''ano_mes'' \<mapsto> ''2016-02'']" and uf = "''RJ''"] len mem none
  show ?thesis by simp
qed

text \<open>
  The two-field line \<^verbatim>\<open>1|2015-03-10\<close>: \<^verbatim>\<open>casos\<close> is unset, and the run stops in
  \<open>uf_key\<close>, before the regular expression sees any value; the one-field line stops in
  \<open>transform_dates\<close>.
\<close>

theorem dengue_short_record_counterexample:
  "list_to_dictionary (text_to_list ''1|2015-03-10'' (CHR ''|'')) dengue_columns ''casos'' = None \<and>
   dengue [''1|2015-03-10''] = Inl (KeyError ''uf'') \<and>
   dengue [''1''] = Inl (KeyError ''data_iniSE'')"
  by (simp add: text_to_list_def list_to_dictionary_def dengue_columns_def dengue_def
      transform_dates_def uf_key_def)

subsection \<open>The zero fallback in the sums\<close>

lemma values_of_no_key: "k \<notin> fst ` set kvs \<Longrightarrow> values_of k kvs = []"
  by (auto simp: values_of_def filter_empty_conv)

lemma sums_insert_zero:
  "(if k \<in> fst ` set (ps @ (key, Fin 0) # qs)
    then Some (g (py_sum (values_of k (ps @ (key, Fin 0) # qs)))) else None) =
   (if k = key
    then Some (case (if key \<in> fst ` set (ps @ qs)
                     then Some (g (py_sum (values_of key (ps @ qs)))) else None) of
                 None \<Rightarrow> g (Fin 0) | Some s \<Rightarrow> s)
    else if k \<in> fst ` set (ps @ qs) then Some (g (py_sum (values_of k (ps @ qs)))) else None)"
proof (cases "k = key")
  case True
  show ?thesis
  proof (cases "key \<in> fst ` set (ps @ qs)")
    case in_others: True
    have "py_sum (values_of key (ps @ (key, Fin 0) # qs)) = py_sum (values_of key (ps @ qs))"
      by (simp add: values_of_append values_of_Cons py_sum_drop_zero)
    then show ?thesis using True in_others by simp
  next
    case False
    then have "values_of key ps = []" "values_of key qs = []"
      by (auto intro!: values_of_no_key)
    then have "py_sum (values_of key (ps @ (key, Fin 0) # qs)) = Fin 0"
      by (simp add: values_of_append values_of_Cons py_sum_def)
    then show ?thesis using True False by simp
  qed
next
  case False
  have "values_of k (ps @ (key, Fin 0) # qs) = values_of k (ps @ qs)"
    using False by (simp add: values_of_append values_of_Cons)
  moreover have "(k \<in> fst ` set (ps @ (key, Fin 0) # qs)) = (k \<in> fst ` set (ps @ qs))"
    using False by auto
  ultimately show ?thesis using False by simp
qed

lemma rain_Inr_pairs:
  assumes "rain round6 lines = Inr out"
  shows "\<exists>pairs. beam_map rain_key_uf_year_month (map (\<lambda>l. text_to_list l (CHR '','')) lines) =
           Inr pairs \<and> out = map (round_rainfall round6) (combine_per_key py_sum pairs)"
  using assms by (auto simp: rain_def split: sum.splits)

lemma rain_insert_zero:
  assumes rec: "rain_key_uf_year_month (text_to_list line (CHR '','')) = Inr (key, Fin 0)"
    and run: "rain round6 (before @ after) = Inr out'"
  shows "\<exists>out. rain round6 (before @ line # after) = Inr out \<and>
           map_of out key = Some (case map_of out' key of None \<Rightarrow> round6 (Fin 0) | Some s \<Rightarrow> s) \<and>
           (\<forall>k. k \<noteq> key \<longrightarrow> map_of out k = map_of out' k)"
proof -
  from rain_Inr_pairs[OF run] obtain others where
    o: "beam_map rain_key_uf_year_month
          (map (\<lambda>l. text_to_list l (CHR '','')) before @
           map (\<lambda>l. text_to_list l (CHR '','')) after) = Inr others"
    and out': "out' = map (round_rainfall round6) (combine_per_key py_sum others)"
    by auto
  from beam_map_insert[OF o rec] obtain ps qs where
    split: "others = ps @ qs" and
    r: "beam_map rain_key_uf_year_month
          (map (\<lambda>l. text_to_list l (CHR '','')) (before @ line # after)) =
        Inr (ps @ (key, Fin 0) # qs)"
    by auto
  let ?out = "map (round_rainfall round6) (combine_per_key py_sum (ps @ (key, Fin 0) # qs))"
  have "rain round6 (before @ line # after) = Inr ?out"
    using r by (rule rain_Inr)
  moreover have "map_of ?out k =
      (if k = key then Some (case map_of out' key of None \<Rightarrow> round6 (Fin 0) | Some s \<Rightarrow> s)
       else map_of out' k)" for k
    unfolding out' split map_of_rain by (rule sums_insert_zero)
  ultimately show ?thesis by auto
qed

lemma dengue_insert_zero:
  assumes rec: "dengue_record line = Inr (key, Fin 0)"
    and run: "dengue (before @ after) = Inr out'"
  shows "\<exists>out. dengue (before @ line # after) = Inr out \<and>
           map_of out key = Some (case map_of out' key of None \<Rightarrow> Fin 0 | Some s \<Rightarrow> s) \<and>
           (\<forall>k. k \<noteq> key \<longrightarrow> map_of out k = map_of out' k)"
proof -
  from dengue_records_of[OF run] obtain others where
    o: "beam_map dengue_record (before @ after) = Inr others" ..
  from map_of_dengue[OF o] run have
    out': "map_of out' k =
             (if k \<in> fst ` set others then Some (py_sum (values_of k others)) else None)" for k
    by auto
  from beam_map_insert[OF o rec] obtain ps qs where
    split: "others = ps @ qs" and
    r: "beam_map dengue_record (before @ line # after) = Inr (ps @ (key, Fin 0) # qs)"
    by auto
  from map_of_dengue[OF r] obtain out where
    run2: "dengue (before @ line # after) = Inr out" and
    out: "\<And>k. map_of out k =
             (if k \<in> fst ` set (ps @ (key, Fin 0) # qs)
              then Some (py_sum (values_of k (ps @ (key, Fin 0) # qs))) else None)"
    by auto
  have "map_of out k =
      (if k = key then Some (case map_of out' key of None \<Rightarrow> Fin 0 | Some s \<Rightarrow> s)
       else map_of out' k)" for k
    unfolding out out' split by (rule sums_insert_zero[where g = "\<lambda>x. x"])
  then show ?thesis using run2 by auto
qed

lemma dengue_record_no_digit:
  assumes "list_to_dictionary (text_to_list line (CHR ''|'')) dengue_columns = d"
    and "d ''data_iniSE'' = Some date" and "d ''uf'' = Some uf" and "d ''casos'' = Some casos"
    and "\<not> re_search_digit casos"
  shows "dengue_record line =
           Inr (uf @ ''-'' @ join ''-'' (take 2 (split_on (CHR ''-'') date)), Fin 0)"
  using assms
  by (simp add: dengue_record_def transform_dates_def uf_key_def dengue_case_def format_get_def)

text \<open>
  C2, as the code has it. The zero fallback covers a rain measure that parses as a float
  below zero and a dengue measure without any digit: such a record is kept, and adding
  its line to a run that returns gives a run that returns, in which the sum of the
  record's key is what it was without the line, or the sum of no values when the key is
  new, and every other key has the sum it had. A rain measure that is no float is not
  coerced: the key derivation raises \<^verbatim>\<open>ValueError\<close> and the run of \<open>rain\<close> ends in an
  error.
\<close>

theorem zero_fallback_record_kept:
  "(text_to_list rain_line (CHR '','') = [date, rainfall, uf] \<longrightarrow>
    py_float rainfall = Some v \<longrightarrow> py_lt_zero v \<longrightarrow>
    key = uf @ ''-'' @ join ''-'' (take 2 (split_on (CHR ''-'') date)) \<longrightarrow>
    rain rnd (before @ after) = Inr out' \<longrightarrow>
    (\<exists>out. rain rnd (before @ rain_line # after) = Inr out \<and>
       map_of out key = Some (case map_of out' key of None \<Rightarrow> rnd (Fin 0) | Some s \<Rightarrow> s) \<and>
       (\<forall>k. k \<noteq> key \<longrightarrow> map_of out k = map_of out' k))) \<and>
   (list_to_dictionary (text_to_list dengue_line (CHR ''|'')) dengue_columns = d \<longrightarrow>
    d ''data_iniSE'' = Some ddate \<longrightarrow> d ''uf'' = Some duf \<longrightarrow> d ''casos'' = Some casos \<longrightarrow>
    \<not> re_search_digit casos \<longrightarrow>
    dkey = duf @ ''-'' @ join ''-'' (take 2 (split_on (CHR ''-'') ddate)) \<longrightarrow>
    dengue (dbefore @ dafter) = Inr dout' \<longrightarrow>
    (\<exists>out. dengue (dbefore @ dengue_line # dafter) = Inr out \<and>
       map_of out dkey = Some (case map_of dout' dkey of None \<Rightarrow> Fin 0 | Some s \<Rightarrow> s) \<and>
       (\<forall>k. k \<noteq> dkey \<longrightarrow> map_of out k = map_of dout' k))) \<and>
   (text_to_list bad_line (CHR '','') = [bdate, brainfall, buf] \<longrightarrow>
    py_float brainfall = None \<longrightarrow>
    rain_key_uf_year_month (text_to_list bad_line (CHR '','')) = Inl (FloatValueError brainfall) \<and>
    (bad_line \<in> set lines \<longrightarrow> (\<exists>e. rain rnd lines = Inl e)))"
proof (intro conjI impI)
  assume f: "text_to_list rain_line (CHR '','') = [date, rainfall, uf]"
    and p: "py_float rainfall = Some v" and n: "py_lt_zero v"
    and k: "key = uf @ ''-'' @ join ''-'' (take 2 (split_on (CHR ''-'') date))"
    and run: "rain rnd (before @ after) = Inr out'"
  have "rain_key_uf_year_month (text_to_list rain_line (CHR '','')) = Inr (key, Fin 0)"
    using rain_negative[OF p n] f k by simp
  from rain_insert_zero[OF this run]
  show "\<exists>out. rain rnd (before @ rain_line # after) = Inr out \<and>
       map_of out key = Some (case map_of out' key of None \<Rightarrow> rnd (Fin 0) | Some s \<Rightarrow> s) \<and>
       (\<forall>k. k \<noteq> key \<longrightarrow> map_of out k = map_of out' k)" .
next
  assume r: "list_to_dictionary (text_to_list dengue_line (CHR ''|'')) dengue_columns = d"
    "d ''data_iniSE'' = Some ddate" "d ''uf'' = Some duf" "d ''casos'' = Some casos"
    "\<not> re_search_digit casos"
    and k: "dkey = duf @ ''-'' @ join ''-'' (take 2 (split_on (CHR ''-'') ddate))"
    and run: "dengue (dbefore @ dafter) = Inr dout'"
  have "dengue_record dengue_line = Inr (dkey, Fin 0)"
    using dengue_record_no_digit[OF r] k by simp
  from dengue_insert_zero[OF this run]
  show "\<exists>out. dengue (dbefore @ dengue_line # dafter) = Inr out \<and>
       map_of out dkey = Some (case map_of dout' dkey of None \<Rightarrow> Fin 0 | Some s \<Rightarrow> s) \<and>
       (\<forall>k. k \<noteq> dkey \<longrightarrow> map_of out k = map_of dout' k)" .
next
  assume f: "text_to_list bad_line (CHR '','') = [bdate, brainfall, buf]"
    and p: "py_float brainfall = None"
  show bad: "rain_key_uf_year_month (text_to_list bad_line (CHR '','')) =
      Inl (FloatValueError brainfall)"
    using f p by (simp add: rain_key_uf_year_month_def)
  assume "bad_line \<in> set lines"
  then have "text_to_list bad_line (CHR '','') \<in> set (map (\<lambda>l. text_to_list l (CHR '','')) lines)"
    by simp
  from beam_map_fails[where f = rain_key_uf_year_month, OF this bad]
  show "\<exists>e. rain rnd lines = Inl e" by (auto simp: rain_def)
qed

lemma parse_sp_10:
  "list_to_dictionary (text_to_list ''1|2015-03-10|10|a|b|SP|c|d|e'' (CHR ''|'')) dengue_columns =
    [''id'' \<mapsto> ''1'', ''data_iniSE'' \<mapsto> ''2015-03-10'', ''casos'' \<mapsto> ''10'',
     ''ibge_code'' \<mapsto> ''a'', ''cidade'' \<mapsto> ''b'', ''uf'' \<mapsto> ''SP'', ''cep'' \<mapsto> ''c'',
     ''latitude'' \<mapsto> ''d'', ''longitude'' \<mapsto> ''e'']"
  by (simp add: text_to_list_def list_to_dictionary_def dengue_columns_def)

lemma parse_sp_abc:
  "list_to_dictionary (text_to_list ''2|2015-03-20|abc|a|b|SP|c|d|e'' (CHR ''|'')) dengue_columns =
    [''id'' \<mapsto> ''2'', ''data_iniSE'' \<mapsto> ''2015-03-20'', ''casos'' \<mapsto> ''abc'',
     ''ibge_code'' \<mapsto> ''a'', ''cidade'' \<mapsto> ''b'', ''uf'' \<mapsto> ''SP'', ''cep'' \<mapsto> ''c'',
     ''latitude'' \<mapsto> ''d'', ''longitude'' \<mapsto> ''e'']"
  by (simp add: text_to_list_def list_to_dictionary_def dengue_columns_def)

lemma dengue_sp_10:
  "dengue [''1|2015-03-10|10|a|b|SP|c|d|e''] = Inr [(''SP-2015-03'', Fin 10)]"
proof -
  have r: "re_search_digit ''10''" by (simp add: re_search_digit_def is_digit_def)
  have p: "py_float ''10'' = Some (Fin 10)" by (simp add: py_float_eval_defs)
  show ?thesis
    by (simp add: dengue_def parse_sp_10 transform_dates_def uf_key_def group_by_key_def
        values_of_def dengue_case_def r p format_get_def combine_per_key_def py_sum_def)
qed

theorem zero_fallback_record_kept_witness:
  "(\<exists>out. rain (\<lambda>x. x) [''2015-04-01,-3.0,SP''] = Inr out \<and>
          map_of out ''SP-2015-04'' = Some (Fin 0)) \<and>
   (\<exists>out. dengue [''1|2015-03-10|10|a|b|SP|c|d|e'', ''2|2015-03-20|abc|a|b|SP|c|d|e''] = Inr out \<and>
          map_of out ''SP-2015-03'' = Some (Fin 10)) \<and>
   (\<exists>e. rain (\<lambda>x. x) [''2015-04-20,2.5,SP'', ''2015-03-05,abc,SP''] = Inl e)"
proof -
  let ?d = "list_to_dictionary (text_to_list ''2|2015-03-20|abc|a|b|SP|c|d|e'' (CHR ''|''))
              dengue_columns"
  note inst = zero_fallback_record_kept[where rain_line = "''2015-04-01,-3.0,SP''"
      and date = "''2015-04-01''" and rainfall = "''-3.0''" and uf = "''SP''" and v = "Fin (- 3)"
      and key = "''SP-2015-04''" and rnd = "\<lambda>x. x" and before = "[]" and after = "[]"
      and out' = "[]"
      and dengue_line = "''2|2015-03-20|abc|a|b|SP|c|d|e''" and d = ?d
      and ddate = "''2015-03-20''" and duf = "''SP''" and casos = "''abc''"
      and dkey = "''SP-2015-03''" and dbefore = "[''1|2015-03-10|10|a|b|SP|c|d|e'']"
      and dafter = "[]" and dout' = "[(''SP-2015-03'', Fin 10)]"
      and bad_line = "''2015-03-05,abc,SP''" and bdate = "''2015-03-05''"
      and brainfall = "''abc''" and buf = "''SP''"
      and lines = "[''2015-04-20,2.5,SP'', ''2015-03-05,abc,SP'']"]
  have r1: "text_to_list ''2015-04-01,-3.0,SP'' (CHR '','') = [''2015-04-01'', ''-3.0'', ''SP'']"
    by (simp add: text_to_list_def)
  have r2: "py_float ''-3.0'' = Some (Fin (- 3))" by (simp add: py_float_eval_defs)
  have r3: "py_lt_zero (Fin (- 3))" by simp
  have r5: "rain (\<lambda>x. x) ([] @ []) = Inr []"
    by (simp add: rain_def combine_per_key_def group_by_key_def)
  from inst r1 r2 r3 r5 have rain_part:
    "\<exists>out. rain (\<lambda>x. x) [''2015-04-01,-3.0,SP''] = Inr out \<and>
          map_of out ''SP-2015-04'' = Some (Fin 0)"
    by simp blast
  have d1: "?d ''data_iniSE'' = Some ''2015-03-20''" "?d ''uf'' = Some ''SP''"
    "?d ''casos'' = Some ''abc''"
    by (simp_all add: parse_sp_abc)
  have d2: "\<not> re_search_digit ''abc''" by (simp add: re_search_digit_def is_digit_def)
  have d4: "dengue ([''1|2015-03-10|10|a|b|SP|c|d|e''] @ []) = Inr [(''SP-2015-03'', Fin 10)]"
    using dengue_sp_10 by simp
  from inst d1 d2 d4 have dengue_part:
    "\<exists>out. dengue [''1|2015-03-10|10|a|b|SP|c|d|e'', ''2|2015-03-20|abc|a|b|SP|c|d|e''] = Inr out \<and>
          map_of out ''SP-2015-03'' = Some (Fin 10)"
    by simp blast
  have b1: "text_to_list ''2015-03-05,abc,SP'' (CHR '','') = [''2015-03-05'', ''abc'', ''SP'']"
    by (simp add: text_to_list_def)
  have b2: "py_float ''abc'' = None" by (simp add: py_float_eval_defs)
  from inst b1 b2 have bad_part:
    "\<exists>e. rain (\<lambda>x. x) [''2015-04-20,2.5,SP'', ''2015-03-05,abc,SP''] = Inl e"
    by simp
  show ?thesis using rain_part dengue_part bad_part by blast
qed

text \<open>
  The rain line \<^verbatim>\<open>2015-03-05,abc,SP\<close>: the measure fails \<^verbatim>\<open>float\<close>, and the record
  raises instead of adding \<open>0.0\<close> to its key.
\<close>

theorem rain_unparsable_counterexample:
  "py_float ''abc'' = None \<and>
   rain_key_uf_year_month (text_to_list ''2015-03-05,abc,SP'' (CHR '','')) =
     Inl (FloatValueError ''abc'') \<and>
   rain (\<lambda>x. x) [''2015-03-05,abc,SP''] = Inl (FloatValueError ''abc'')"
proof -
  have p: "py_float ''abc'' = None" by (simp add: py_float_eval_defs)
  then show ?thesis
    by (simp add: rain_def text_to_list_def rain_key_uf_year_month_def)
qed

subsection \<open>The composite key\<close>

lemma split_composite_key:
  assumes "CHR ''-'' \<notin> set uf" and "split_on (CHR ''-'') date = year # month # rest"
  shows "split_on (CHR ''-'') (uf @ ''-'' @ join ''-'' (take 2 (split_on (CHR ''-'') date))) =
           [uf, year, month]"
proof -
  have y: "CHR ''-'' \<notin> set year" and m: "CHR ''-'' \<notin> set month"
    using split_on_pieces[of _ "CHR ''-''" date] assms(2) by auto
  have "uf @ ''-'' @ join ''-'' (take 2 (split_on (CHR ''-'') date)) =
          uf @ CHR ''-'' # (year @ CHR ''-'' # month)"
    by (simp add: assms(2))
  then show ?thesis
    by (simp add: split_on_append_sep[OF assms(1)] split_on_append_sep[OF y] split_on_no_sep[OF m])
qed

text \<open>
  C4. Take a region without a dash and a date whose split on the dash starts with a year
  and a month. The key that either source derives for a valid record (one whose measure
  is accepted) splits on the dash into exactly the region, the year and the month, and
  \<open>unpack_elements\<close> returns these three tokens for a joined element with that key.
\<close>

theorem composite_key_round_trip:
  assumes "CHR ''-'' \<notin> set uf" and "split_on (CHR ''-'') date = year # month # rest"
  shows "(py_float rainfall = Some v \<longrightarrow>
            (\<exists>key m. rain_key_uf_year_month [date, rainfall, uf] = Inr (key, m) \<and>
                     split_on (CHR ''-'') key = [uf, year, month])) \<and>
         (d ''data_iniSE'' = Some date \<longrightarrow> d ''uf'' = Some uf \<longrightarrow> d ''casos'' = Some casos \<longrightarrow>
          (\<not> re_search_digit casos \<or> py_float casos \<noteq> None) \<longrightarrow>
            (\<exists>dated key m. transform_dates d = Inr dated \<and> uf_key dated = Inr (uf, dated) \<and>
                           dengue_case uf dated = Inr (key, m) \<and>
                           split_on (CHR ''-'') key = [uf, year, month])) \<and>
         (\<forall>key. split_on (CHR ''-'') key = [uf, year, month] \<longrightarrow>
                data ''rain'' = Some (r # rs) \<longrightarrow> data ''dengue'' = Some (c # cs) \<longrightarrow>
                unpack_elements str_float (key, data) =
                  Inr (uf, year, month, str_float r, str_float c))"
proof (intro conjI impI allI)
  let ?key = "uf @ ''-'' @ join ''-'' (take 2 (split_on (CHR ''-'') date))"
  note key = split_composite_key[OF assms]
  {
    assume "py_float rainfall = Some v"
    then have "\<exists>m. rain_key_uf_year_month [date, rainfall, uf] = Inr (?key, m)"
      by (cases "py_ge_zero v") (simp_all add: rain_key_uf_year_month_def)
    then show "\<exists>key m. rain_key_uf_year_month [date, rainfall, uf] = Inr (key, m) \<and>
                     split_on (CHR ''-'') key = [uf, year, month]"
      using key by blast
  }
  {
    assume a: "d ''data_iniSE'' = Some date" "d ''uf'' = Some uf" "d ''casos'' = Some casos"
      "\<not> re_search_digit casos \<or> py_float casos \<noteq> None"
    let ?dated = "d(''ano_mes'' \<mapsto> join ''-'' (take 2 (split_on (CHR ''-'') date)))"
    have t: "transform_dates d = Inr ?dated" using a(1) by (simp add: transform_dates_def)
    have u: "uf_key ?dated = Inr (uf, ?dated)" using a(2) by (simp add: uf_key_def)
    have "\<exists>m. dengue_case uf ?dated = Inr (?key, m)"
      using a(3,4) by (auto simp: dengue_case_def format_get_def)
    then show "\<exists>dated key m. transform_dates d = Inr dated \<and> uf_key dated = Inr (uf, dated) \<and>
                           dengue_case uf dated = Inr (key, m) \<and>
                           split_on (CHR ''-'') key = [uf, year, month]"
      using t u key by blast
  }
  {
    fix key
    assume "split_on (CHR ''-'') key = [uf, year, month]"
      "data ''rain'' = Some (r # rs)" "data ''dengue'' = Some (c # cs)"
    then show "unpack_elements str_float (key, data) =
                  Inr (uf, year, month, str_float r, str_float c)"
      by (simp add: unpack_elements_def)
  }
qed

theorem composite_key_round_trip_witness:
  "(\<exists>key m. rain_key_uf_year_month [''2015-03-05'', ''5.5'', ''SP''] = Inr (key, m) \<and>
            split_on (CHR ''-'') key = [''SP'', ''2015'', ''03'']) \<and>
   (\<exists>dated key m.
      transform_dates [''data_iniSE'' \<mapsto> ''2015-03-05'', ''uf'' \<mapsto> ''SP'', ''casos'' \<mapsto> ''10''] =
        Inr dated \<and>
      uf_key dated = Inr (''SP'', dated) \<and> dengue_case ''SP'' dated = Inr (key, m) \<and>
      split_on (CHR ''-'') key = [''SP'', ''2015'', ''03'']) \<and>
   unpack_elements (\<lambda>x. ''v'')
     (''SP-2015-03'', [''rain'' \<mapsto> [Fin 10], ''dengue'' \<mapsto> [Fin 10]]) =
     Inr (''SP'', ''2015'', ''03'', ''v'', ''v'')"
proof -
  let ?d = "[''data_iniSE'' \<mapsto> ''2015-03-05'', ''uf'' \<mapsto> ''SP'', ''casos'' \<mapsto> ''10'']"
  let ?data = "[''rain'' \<mapsto> [Fin 10], ''dengue'' \<mapsto> [Fin (10::real)]]"
  have u: "CHR ''-'' \<notin> set ''SP''" by simp
  have s: "split_on (CHR ''-'') ''2015-03-05'' = ''2015'' # ''03'' # [''05'']" by simp
  have p: "py_float ''5.5'' = Some (Fin (11 / 2))" by (simp add: py_float_eval_defs)
  have q: "py_float ''10'' \<noteq> None" by (simp add: py_float_eval_defs)
  have d: "?d ''data_iniSE'' = Some ''2015-03-05''" "?d ''uf'' = Some ''SP''"
    "?d ''casos'' = Some ''10''" by simp_all
  have k: "split_on (CHR ''-'') ''SP-2015-03'' = [''SP'', ''2015'', ''03'']" by simp
  have j: "?data ''rain'' = Some (Fin 10 # [])" "?data ''dengue'' = Some (Fin 10 # [])" by simp_all
  note inst = composite_key_round_trip[OF u s, where rainfall = "''5.5''" and v = "Fin (11 / 2)"
      and d = ?d and casos = "''10''" and data = ?data and r = "Fin 10" and rs = "[]"
      and c = "Fin 10" and cs = "[]" and str_float = "\<lambda>x. ''v''"]
  from inst p have 1: "\<exists>key m. rain_key_uf_year_month [''2015-03-05'', ''5.5'', ''SP''] = Inr (key, m) \<and>
            split_on (CHR ''-'') key = [''SP'', ''2015'', ''03'']"
    by blast
  from inst d q have 2: "\<exists>dated key m. transform_dates ?d = Inr dated \<and>
      uf_key dated = Inr (''SP'', dated) \<and> dengue_case ''SP'' dated = Inr (key, m) \<and>
      split_on (CHR ''-'') key = [''SP'', ''2015'', ''03'']"
    by blast
  from inst k j have 3: "unpack_elements (\<lambda>x. ''v'') (''SP-2015-03'', ?data) =
     Inr (''SP'', ''2015'', ''03'', ''v'', ''v'')"
    by blast
  show ?thesis using 1 2 3 by blast
qed

subsection \<open>The join and the completeness filter\<close>













end
